theory Spec2Isabelle
  imports Complex_Main
begin

section \<open>ofxImageSequence: data model\<close>

text \<open>
  The development embeds \<^verbatim>\<open>src/ofxImageSequence.h\<close>: the class
  \<^verbatim>\<open>ofxImageSequence<T>\<close> and its loader \<^verbatim>\<open>ImageSequenceLoader<T>\<close>.
  Every member function becomes a function on a record of the members. The
  openFrameworks library is outside the repository, so its three services
  (the image decoder, the directory listing and the file test) are fields of
  an environment record passed to the functions that call them.

  C++ leaves some executions undefined. They are values here: a function that
  can reach one returns \<open>fault + 'a\<close>, with \<open>Inl\<close> naming the fault.
\<close>

datatype fault =
    DivideByZero        \<comment> \<open>integer \<^verbatim>\<open>%\<close> with a zero divisor\<close>
  | IndexOutOfRange     \<comment> \<open>\<^verbatim>\<open>operator[]\<close> past the end of a vector\<close>
  | IntegerOverflow     \<comment> \<open>signed \<^verbatim>\<open>int\<close> arithmetic leaving the 32-bit range\<close>
  | InvalidFormat       \<comment> \<open>a conversion specification outside the modelled part of printf\<close>
  | BufferOverrun       \<comment> \<open>\<^verbatim>\<open>sprintf\<close> writing past \<^verbatim>\<open>char imagename[1024]\<close>\<close>

text \<open>
  A pixel buffer (\<^verbatim>\<open>ofPixels\<close>, \<^verbatim>\<open>ofShortPixels\<close> or \<^verbatim>\<open>ofFloatPixels\<close>):
  what the class reads of it is \<^verbatim>\<open>isAllocated()\<close>, \<^verbatim>\<open>getWidth()\<close> and
  \<^verbatim>\<open>getHeight()\<close>; \<open>pixData\<close> stands for the decoded content.
\<close>

record ofPixels =
  isAllocated :: bool
  getWidth :: nat
  getHeight :: nat
  pixData :: string

text \<open>The default-constructed buffer pushed for every frame, \<^verbatim>\<open>ofPixels()\<close>.\<close>

definition ofPixels_new :: ofPixels where
  "ofPixels_new = \<lparr>isAllocated = False, getWidth = 0, getHeight = 0, pixData = []\<rparr>"

text \<open>The single texture slot: the buffer last uploaded, and the two filters.\<close>

record ofTexture =
  texData :: "ofPixels option"
  texMinFilter :: int
  texMagFilter :: int

text \<open>
  The template argument \<^verbatim>\<open>T\<close>, and the names \<^verbatim>\<open>typeid(...).name()\<close> can
  return: that of a pixel buffer type, or that of the sequence class itself.
\<close>

datatype pixel_type = T_ofPixels | T_ofShortPixels | T_ofFloatPixels

datatype type_name = PixelsName pixel_type | ImageSequenceName pixel_type

text \<open>\<^verbatim>\<open>ImageSequenceLoader\<close>: the two flags of the worker.\<close>

record loader =
  loading :: bool
  cancelLoading :: bool

text \<open>What \<^verbatim>\<open>ofLogError\<close> is called with.\<close>

datatype log_entry =
    NoImageFilesFound
  | UnrecognisedType
  | CouldNotFindFolder string
  | NoImageFilesIn string
  | EmptyImageSequence
  | MaxFramesAfterLoad
  | ThreadedAfterLoad
  | PreloadUninitialized
  | ImageFailedToLoad string
  | FrameOutOfBounds int
  | FilenameOutOfRange
  | SetFrameUninitialized
  | NegativeIndex

text \<open>
  The members of \<^verbatim>\<open>ofxImageSequence<T>\<close>, under their own names. Two fields
  are added to observe the calls the class makes: \<open>errorLog\<close> collects the
  \<^verbatim>\<open>ofLogError\<close> reports and \<open>decodeLog\<close> the index of every frame handed
  to \<^verbatim>\<open>ofLoadImage\<close>, both oldest first.
\<close>

record ofxImageSequence =
  threadLoader :: "loader option"
  sequence :: "ofPixels list"
  filenames :: "string list"
  loadFailed :: "bool list"
  currentFrame :: int
  texture :: ofTexture
  extension :: string
  folderToLoad :: string
  curLoadFrame :: int
  maxFrames :: int
  useThread :: bool
  loaded :: bool
  width :: real
  height :: real
  lastFrameLoaded :: int
  frameRate :: real
  minFilter :: int
  magFilter :: int
  errorLog :: "log_entry list"
  decodeLog :: "nat list"

text \<open>
  The library services. \<open>ofLoadImage e path\<close> is \<open>Some p\<close> when the decoder
  returns true and has filled the buffer with \<open>p\<close>, and \<open>None\<close> when it returns
  false, in which case the buffer is left as it was. \<open>listDir e exts folder\<close> is
  the listing of \<open>folder\<close> restricted to the allowed extensions \<open>exts\<close> (no
  restriction when \<open>exts\<close> is empty), in the order \<^verbatim>\<open>getPath\<close> indexes it.
\<close>

record env =
  ofLoadImage :: "string \<Rightarrow> ofPixels option"
  fileExists :: "string \<Rightarrow> bool"
  listDir :: "string list \<Rightarrow> string \<Rightarrow> string list"

definition ofLogError :: "log_entry \<Rightarrow> ofxImageSequence \<Rightarrow> ofxImageSequence" where
  "ofLogError m s = s\<lparr>errorLog := errorLog s @ [m]\<rparr>"

definition INT_MAX :: int where
  "INT_MAX = 2147483647"

definition INT_MIN :: int where
  "INT_MIN = - 2147483648"

text \<open>The result of a signed \<^verbatim>\<open>int\<close> operation: undefined outside the range.\<close>

definition int_result :: "int \<Rightarrow> fault + int" where
  "int_result x = (if INT_MIN \<le> x \<and> x \<le> INT_MAX then Inr x else Inl IntegerOverflow)"

section \<open>The frame cache\<close>

text \<open>
  The constructor. It leaves \<^verbatim>\<open>width\<close>, \<^verbatim>\<open>height\<close>, \<^verbatim>\<open>minFilter\<close> and
  \<^verbatim>\<open>magFilter\<close> uninitialised: their values are parameters here, as is the
  default-constructed texture.
\<close>

definition ofxImageSequence_new ::
  "real \<Rightarrow> real \<Rightarrow> int \<Rightarrow> int \<Rightarrow> ofTexture \<Rightarrow> ofxImageSequence" where
  "ofxImageSequence_new w h mn mg tex =
     \<lparr>threadLoader = None, sequence = [], filenames = [], loadFailed = [],
      currentFrame = 0, texture = tex, extension = [], folderToLoad = [],
      curLoadFrame = 0, maxFrames = 0, useThread = False, loaded = False,
      width = w, height = h, lastFrameLoaded = - 1, frameRate = 30,
      minFilter = mn, magFilter = mg, errorLog = [], decodeLog = []\<rparr>"

text \<open>
  \<^verbatim>\<open>unloadSequence\<close>. Deleting the loader runs its destructor, which cancels
  and joins the worker; what remains in this record is the null pointer.
\<close>

definition unloadSequence :: "ofxImageSequence \<Rightarrow> ofxImageSequence" where
  "unloadSequence s =
     s\<lparr>threadLoader := None, sequence := [], filenames := [], loadFailed := [],
       loaded := False, width := 0, height := 0, curLoadFrame := 0,
       lastFrameLoaded := - 1, currentFrame := 0\<rparr>"

text \<open>
  The statement shared by \<^verbatim>\<open>loadFrame\<close> and \<^verbatim>\<open>preloadAllFrames\<close>:
  \<^verbatim>\<open>if (!ofLoadImage(sequence[i], filenames[i])) { loadFailed[i] = true; ofLogError(...) }\<close>.
\<close>

definition tryLoadImage :: "env \<Rightarrow> nat \<Rightarrow> ofxImageSequence \<Rightarrow> fault + ofxImageSequence" where
  "tryLoadImage e i s =
     (if length (sequence s) \<le> i \<or> length (filenames s) \<le> i then Inl IndexOutOfRange
      else
        let s1 = s\<lparr>decodeLog := decodeLog s @ [i]\<rparr> in
        case ofLoadImage e (filenames s ! i) of
          Some p \<Rightarrow> Inr (s1\<lparr>sequence := (sequence s)[i := p]\<rparr>)
        | None \<Rightarrow>
            if length (loadFailed s) \<le> i then Inl IndexOutOfRange
            else Inr (ofLogError (ImageFailedToLoad (filenames s ! i))
                        (s1\<lparr>loadFailed := (loadFailed s)[i := True]\<rparr>)))"

text \<open>
  \<^verbatim>\<open>loadFrame\<close>. The comparison \<^verbatim>\<open>imageIndex >= sequence.size()\<close> converts
  \<^verbatim>\<open>imageIndex\<close> to \<^verbatim>\<open>size_t\<close>; it is reached with \<^verbatim>\<open>imageIndex >= 0\<close> only,
  where the conversion keeps the value.
\<close>

definition loadFrame :: "env \<Rightarrow> int \<Rightarrow> ofxImageSequence \<Rightarrow> fault + ofxImageSequence" where
  "loadFrame e imageIndex s =
     (if lastFrameLoaded s = imageIndex then Inr s
      else if imageIndex < 0 \<or> int (length (sequence s)) \<le> imageIndex
      then Inr (ofLogError (FrameOutOfBounds imageIndex) s)
      else
        let i = nat imageIndex in
        if length (loadFailed s) \<le> i then Inl IndexOutOfRange
        else
          case (if \<not> isAllocated (sequence s ! i) \<and> \<not> loadFailed s ! i
                then tryLoadImage e i s else Inr s) of
            Inl f \<Rightarrow> Inl f
          | Inr s1 \<Rightarrow>
              if loadFailed s1 ! i then Inr s1
              else Inr (s1\<lparr>texture := (texture s1)\<lparr>texData := Some (sequence s1 ! i)\<rparr>,
                           lastFrameLoaded := imageIndex\<rparr>))"

text \<open>\<^verbatim>\<open>operator[]\<close> of a vector, reading past the end being undefined.\<close>

definition vector_at :: "'a list \<Rightarrow> nat \<Rightarrow> fault + 'a" where
  "vector_at xs i = (if i < length xs then Inr (xs ! i) else Inl IndexOutOfRange)"

text \<open>
  \<^verbatim>\<open>preloadAllFrames\<close>. The loop body is \<open>preloadAllFrames_loop\<close>, from
  index \<open>i\<close> on. In threaded mode each round reads \<^verbatim>\<open>threadLoader->cancelLoading\<close>
  under the lock; another thread may have set the flag since the last round, so
  \<open>cancelSeen i\<close> tells whether \<^verbatim>\<open>cancel()\<close> has set it by round \<open>i\<close>.
\<close>

function preloadAllFrames_loop ::
  "env \<Rightarrow> (nat \<Rightarrow> bool) \<Rightarrow> nat \<Rightarrow> ofxImageSequence \<Rightarrow> fault + ofxImageSequence" where
  "preloadAllFrames_loop e cancelSeen i s =
     (if i < length (sequence s) then
        if useThread s \<and> threadLoader s = None then Inr s
        else if useThread s \<and> (cancelLoading (the (threadLoader s)) \<or> cancelSeen i) then Inr s
        else
          case tryLoadImage e i (s\<lparr>curLoadFrame := int i\<rparr>) of
            Inl f \<Rightarrow> Inl f
          | Inr s1 \<Rightarrow> preloadAllFrames_loop e cancelSeen (Suc i) s1
      else Inr s)"
  by pat_completeness auto
termination
  by (relation "measure (\<lambda>(e, c, i, s). length (sequence s) - i)")
     (auto simp: tryLoadImage_def ofLogError_def Let_def split: if_splits option.splits)

declare preloadAllFrames_loop.simps [simp del]

definition preloadAllFrames ::
  "env \<Rightarrow> (nat \<Rightarrow> bool) \<Rightarrow> ofxImageSequence \<Rightarrow> fault + ofxImageSequence" where
  "preloadAllFrames e cancelSeen s =
     (if length (sequence s) = 0 then Inr (ofLogError PreloadUninitialized s)
      else preloadAllFrames_loop e cancelSeen 0 s)"

definition isLoaded :: "ofxImageSequence \<Rightarrow> bool" where
  "isLoaded s = loaded s"

definition isLoading :: "ofxImageSequence \<Rightarrow> bool" where
  "isLoading s = (case threadLoader s of None \<Rightarrow> False | Some l \<Rightarrow> loading l)"

text \<open>\<^verbatim>\<open>getTotalFrames\<close>: \<^verbatim>\<open>sequence.size()\<close> returned as \<^verbatim>\<open>int\<close>.\<close>

definition getTotalFrames :: "ofxImageSequence \<Rightarrow> int" where
  "getTotalFrames s = int (length (sequence s))"

text \<open>
  \<^verbatim>\<open>percentLoaded\<close>. The quotient is computed in \<^verbatim>\<open>double\<close> and returned as
  \<^verbatim>\<open>float\<close>; it is the exact quotient here.
\<close>

definition percentLoaded :: "ofxImageSequence \<Rightarrow> real" where
  "percentLoaded s =
     (if isLoaded s then 1
      else if isLoading s \<and> length (sequence s) > 0
      then 1 * of_int (curLoadFrame s) / of_nat (length (sequence s))
      else 0)"

text \<open>\<^verbatim>\<open>ImageSequenceLoader::cancel\<close>, which returns once the worker is joined.\<close>

definition cancel :: "loader \<Rightarrow> loader" where
  "cancel l = (if loading l then l\<lparr>cancelLoading := True, loading := False\<rparr> else l)"

text \<open>
  \<^verbatim>\<open>cancelLoad\<close>: cancel the loader, delete it, null the pointer. The record
  passed in is the sequence as the worker leaves it when it stops.
\<close>

definition cancelLoad :: "ofxImageSequence \<Rightarrow> ofxImageSequence" where
  "cancelLoad s =
     (if useThread s \<and> threadLoader s \<noteq> None
      then (s\<lparr>threadLoader := map_option cancel (threadLoader s)\<rparr>)\<lparr>threadLoader := None\<rparr>
      else s)"

definition setMaxFrames :: "int \<Rightarrow> ofxImageSequence \<Rightarrow> ofxImageSequence" where
  "setMaxFrames newMaxFrames s =
     (let s1 = s\<lparr>maxFrames := max newMaxFrames 0\<rparr>
      in if loaded s1 then ofLogError MaxFramesAfterLoad s1 else s1)"

definition setExtension :: "string \<Rightarrow> ofxImageSequence \<Rightarrow> ofxImageSequence" where
  "setExtension ext s = s\<lparr>extension := ext\<rparr>"

definition enableThreadedLoad :: "bool \<Rightarrow> ofxImageSequence \<Rightarrow> ofxImageSequence" where
  "enableThreadedLoad enable s =
     (let s1 = (if loaded s then ofLogError ThreadedAfterLoad s else s)
      in s1\<lparr>useThread := enable\<rparr>)"

definition setMinMagFilter :: "int \<Rightarrow> int \<Rightarrow> ofxImageSequence \<Rightarrow> ofxImageSequence" where
  "setMinMagFilter newMinFilter newMagFilter s =
     s\<lparr>minFilter := newMinFilter, magFilter := newMagFilter,
       texture := (texture s)\<lparr>texMinFilter := newMinFilter, texMagFilter := newMagFilter\<rparr>\<rparr>"

definition setFrameRate :: "real \<Rightarrow> ofxImageSequence \<Rightarrow> ofxImageSequence" where
  "setFrameRate rate s = s\<lparr>frameRate := rate\<rparr>"

text \<open>
  \<^verbatim>\<open>getFilePath\<close>: the path returned, and the sequence with the report added
  when there is one.
\<close>

definition getFilePath :: "int \<Rightarrow> ofxImageSequence \<Rightarrow> string \<times> ofxImageSequence" where
  "getFilePath index s =
     (if index > 0 \<and> index < int (length (filenames s))
      then (filenames s ! nat index, s)
      else ([], ofLogError FilenameOutOfRange s))"

text \<open>\<^verbatim>\<open>completeLoading\<close>.\<close>

definition completeLoading :: "env \<Rightarrow> ofxImageSequence \<Rightarrow> fault + ofxImageSequence" where
  "completeLoading e s =
     (if length (sequence s) = 0 then Inr (ofLogError EmptyImageSequence s)
      else
        case loadFrame e 0 (s\<lparr>loaded := True, lastFrameLoaded := - 1\<rparr>) of
          Inl f \<Rightarrow> Inl f
        | Inr s1 \<Rightarrow>
            (case vector_at (sequence s1) 0 of
               Inl f \<Rightarrow> Inl f
             | Inr p \<Rightarrow> Inr (s1\<lparr>width := of_nat (getWidth p), height := of_nat (getHeight p)\<rparr>)))"

text \<open>
  \<^verbatim>\<open>setFrame\<close>. \<^verbatim>\<open>index %= getTotalFrames()\<close> is reached with \<^verbatim>\<open>index >= 0\<close>,
  where C++ \<^verbatim>\<open>%\<close> and \<open>mod\<close> agree; a zero divisor is undefined.
\<close>

definition setFrame :: "env \<Rightarrow> int \<Rightarrow> ofxImageSequence \<Rightarrow> fault + ofxImageSequence" where
  "setFrame e index s =
     (if \<not> loaded s then Inr (ofLogError SetFrameUninitialized s)
      else if index < 0 then Inr (ofLogError NegativeIndex s)
      else if getTotalFrames s = 0 then Inl DivideByZero
      else
        let index1 = index mod getTotalFrames s in
        case loadFrame e index1 s of
          Inl f \<Rightarrow> Inl f
        | Inr s1 \<Rightarrow> Inr (s1\<lparr>currentFrame := index1\<rparr>))"

subsection \<open>Single precision arithmetic\<close>

text \<open>
  A finite \<^verbatim>\<open>float\<close> is the real number it denotes. \<open>pow2 e\<close> is \<open>2\<close> to the
  power \<open>e\<close>. \<open>float_exponent x\<close> is the exponent of the binade of \<open>x\<close>: the
  greatest \<open>e\<close> from \<open>-126\<close> to \<open>127\<close> with \<open>pow2 e \<le> \<bar>x\<bar>\<close>, and \<open>-126\<close>
  below the normal range. A \<^verbatim>\<open>float\<close> has 24 significant bits, so its
  neighbours in that binade are \<open>pow2 (e - 23)\<close> apart.
\<close>

definition pow2 :: "int \<Rightarrow> real" where
  "pow2 e = (if 0 \<le> e then 2 ^ nat e else 1 / 2 ^ nat (- e))"

definition float_exponent :: "real \<Rightarrow> int" where
  "float_exponent x =
     (case find (\<lambda>e. pow2 e \<le> \<bar>x\<bar>) (rev [- 126..127]) of
        Some e \<Rightarrow> e
      | None \<Rightarrow> - 126)"

text \<open>The nearest integer, a tie going to the even one.\<close>

definition round_even :: "real \<Rightarrow> int" where
  "round_even y =
     (let f = \<lfloor>y\<rfloor>; d = y - of_int f
      in if d < 1 / 2 then f
         else if 1 / 2 < d then f + 1
         else if even f then f else f + 1)"

text \<open>
  The rounding every \<^verbatim>\<open>float\<close> operation and every conversion to
  \<^verbatim>\<open>float\<close> ends with: to the nearest \<^verbatim>\<open>float\<close>, a tie going to the even
  significand. Magnitudes from \<open>2 ^ 128\<close> on, which round to infinity, are not
  modelled; the operations below stay under \<open>2 ^ 65\<close>.
\<close>

definition to_float :: "real \<Rightarrow> real" where
  "to_float x =
     (let u = pow2 (float_exponent x - 23)
      in of_int (round_even (x / u)) * u)"

subsection \<open>From a percentage to a frame\<close>

text \<open>
  The first statement of \<^verbatim>\<open>getFrameIndexAtPercent\<close>:
  \<^verbatim>\<open>if (percent < 0.0 || percent > 1.0) percent -= floor(percent);\<close>.
  \<open>percent\<close> is the finite \<^verbatim>\<open>float\<close> passed. The comparisons and
  \<^verbatim>\<open>floor\<close> are exact; the subtraction is rounded.
\<close>

definition wrap_percent :: "real \<Rightarrow> real" where
  "wrap_percent percent =
     (if percent < 0 \<or> percent > 1
      then to_float (percent - of_int \<lfloor>percent\<rfloor>) else percent)"

text \<open>
  The cast \<^verbatim>\<open>(int)\<close> of a \<^verbatim>\<open>float\<close> truncates towards zero and is
  undefined outside the range of \<^verbatim>\<open>int\<close>.
\<close>

definition int_cast :: "real \<Rightarrow> fault + int" where
  "int_cast x = int_result (if 0 \<le> x then \<lfloor>x\<rfloor> else \<lceil>x\<rceil>)"

definition to_size_t :: "int \<Rightarrow> int" where
  "to_size_t x = x mod 2 ^ 64"

definition to_int32 :: "int \<Rightarrow> int" where
  "to_int32 x = (x + 2 ^ 31) mod 2 ^ 32 - 2 ^ 31"

text \<open>
  \<^verbatim>\<open>return MIN((int)(percent * sequence.size()), sequence.size() - 1);\<close>.
  The product is a \<^verbatim>\<open>float\<close> product: \<^verbatim>\<open>sequence.size()\<close> is converted to
  \<^verbatim>\<open>float\<close> and the product is rounded to \<^verbatim>\<open>float\<close>. The macro
  \<^verbatim>\<open>MIN(x, y)\<close> compares an \<^verbatim>\<open>int\<close> with the \<^verbatim>\<open>size_t\<close> value
  \<^verbatim>\<open>sequence.size() - 1\<close>, so both sides are taken modulo \<open>2 ^ 64\<close>, and the
  result is converted back to the 32-bit \<^verbatim>\<open>int\<close> returned.
\<close>

definition getFrameIndexAtPercent :: "ofxImageSequence \<Rightarrow> real \<Rightarrow> fault + int" where
  "getFrameIndexAtPercent s percent =
     (case int_cast (to_float (wrap_percent percent
                                 * to_float (of_nat (length (sequence s))))) of
        Inl f \<Rightarrow> Inl f
      | Inr x \<Rightarrow>
          Inr (to_int32 (if to_size_t x < to_size_t (int (length (sequence s)) - 1)
                         then to_size_t x
                         else to_size_t (int (length (sequence s)) - 1))))"

definition setFrameAtPercent :: "env \<Rightarrow> real \<Rightarrow> ofxImageSequence \<Rightarrow> fault + ofxImageSequence" where
  "setFrameAtPercent e percent s =
     (case getFrameIndexAtPercent s percent of
        Inl f \<Rightarrow> Inl f
      | Inr index \<Rightarrow> setFrame e index s)"

text \<open>
  \<^verbatim>\<open>getTextureForFrame\<close> and \<^verbatim>\<open>getPixelsForFrame\<close>: \<^verbatim>\<open>setFrame\<close>, then
  the texture, or \<^verbatim>\<open>sequence[lastFrameLoaded]\<close>. The accessors by time and by
  percent call \<^verbatim>\<open>setFrame\<close> in the same way, at the index they compute.
\<close>

definition getTextureForFrame ::
  "env \<Rightarrow> int \<Rightarrow> ofxImageSequence \<Rightarrow> fault + ofTexture \<times> ofxImageSequence" where
  "getTextureForFrame e index s =
     (case setFrame e index s of
        Inl f \<Rightarrow> Inl f
      | Inr s1 \<Rightarrow> Inr (texture s1, s1))"

definition getPixelsForFrame ::
  "env \<Rightarrow> int \<Rightarrow> ofxImageSequence \<Rightarrow> fault + ofPixels \<times> ofxImageSequence" where
  "getPixelsForFrame e index s =
     (case setFrame e index s of
        Inl f \<Rightarrow> Inl f
      | Inr s1 \<Rightarrow>
          if lastFrameLoaded s1 < 0 then Inl IndexOutOfRange
          else
            (case vector_at (sequence s1) (nat (lastFrameLoaded s1)) of
               Inl f \<Rightarrow> Inl f
             | Inr p \<Rightarrow> Inr (p, s1)))"

section \<open>The frame index\<close>

subsection \<open>Formatting a file name\<close>

text \<open>
  Decimal output of an \<^verbatim>\<open>int\<close>, as \<^verbatim>\<open>operator<<\<close> and \<^verbatim>\<open>%d\<close> write it.
\<close>

definition digit_char :: "nat \<Rightarrow> char" where
  "digit_char d = ''0123456789'' ! d"

fun show_nat :: "nat \<Rightarrow> string" where
  "show_nat n = (if n < 10 then [digit_char n] else show_nat (n div 10) @ [digit_char (n mod 10)])"

declare show_nat.simps [simp del]

definition show_int :: "int \<Rightarrow> string" where
  "show_int i = (if i < 0 then CHR ''-'' # show_nat (nat (- i)) else show_nat (nat i))"

definition digit_val :: "char \<Rightarrow> nat option" where
  "digit_val c =
     map_of [(CHR ''0'', 0), (CHR ''1'', 1), (CHR ''2'', 2), (CHR ''3'', 3), (CHR ''4'', 4),
             (CHR ''5'', 5), (CHR ''6'', 6), (CHR ''7'', 7), (CHR ''8'', 8), (CHR ''9'', 9)] c"

text \<open>
  The conversion \<^verbatim>\<open>%d\<close> with the flags \<^verbatim>\<open>0\<close> and \<^verbatim>\<open>-\<close> and a minimum
  field width: \<^verbatim>\<open>-\<close> pads with spaces on the right and overrides \<^verbatim>\<open>0\<close>;
  \<^verbatim>\<open>0\<close> pads with zeros between sign and digits; otherwise spaces on the left.
\<close>

definition conv_d :: "bool \<Rightarrow> bool \<Rightarrow> nat \<Rightarrow> int \<Rightarrow> string" where
  "conv_d zpad left w i =
     (let sgn = (if i < 0 then ''-'' else []);
          ds = show_nat (nat \<bar>i\<bar>);
          pad = w - (length sgn + length ds)
      in if left then sgn @ ds @ replicate pad CHR '' ''
         else if zpad then sgn @ replicate pad CHR ''0'' @ ds
         else replicate pad CHR '' '' @ sgn @ ds)"

text \<open>
  The part of printf that the class can be made to run, as a scanner over the
  format string: literal text, \<^verbatim>\<open>%%\<close>, and \<^verbatim>\<open>%d\<close> with the flags above and
  a width. The call passes one \<^verbatim>\<open>int\<close>; \<open>used\<close> records that a conversion has
  taken it. A second \<^verbatim>\<open>%d\<close> has no argument left and any other
  specification is outside this part: both are \<open>InvalidFormat\<close>.
\<close>

datatype printf_mode = Literal | Flags bool bool bool | Width bool bool nat

definition emit :: "string \<Rightarrow> fault + string \<Rightarrow> fault + string" where
  "emit pre r = (case r of Inl f \<Rightarrow> Inl f | Inr out \<Rightarrow> Inr (pre @ out))"

fun printf :: "printf_mode \<Rightarrow> string \<Rightarrow> int \<Rightarrow> bool \<Rightarrow> fault + string" where
  "printf Literal [] i used = Inr []"
| "printf Literal (c # cs) i used =
     (if c = CHR ''%'' then printf (Flags False False False) cs i used
      else emit [c] (printf Literal cs i used))"
| "printf (Flags zpad left seen) [] i used = Inl InvalidFormat"
| "printf (Flags zpad left seen) (c # cs) i used =
     (if c = CHR ''%'' then
        (if seen then Inl InvalidFormat else emit ''%'' (printf Literal cs i used))
      else if c = CHR ''0'' then printf (Flags True left True) cs i used
      else if c = CHR ''-'' then printf (Flags zpad True True) cs i used
      else if c = CHR ''d'' then
        (if used then Inl InvalidFormat
         else emit (conv_d zpad left 0 i) (printf Literal cs i True))
      else
        (case digit_val c of
           Some d \<Rightarrow> printf (Width zpad left d) cs i used
         | None \<Rightarrow> Inl InvalidFormat))"
| "printf (Width zpad left w) [] i used = Inl InvalidFormat"
| "printf (Width zpad left w) (c # cs) i used =
     (if c = CHR ''d'' then
        (if used then Inl InvalidFormat
         else emit (conv_d zpad left w i) (printf Literal cs i True))
      else
        (case digit_val c of
           Some d \<Rightarrow> printf (Width zpad left (10 * w + d)) cs i used
         | None \<Rightarrow> Inl InvalidFormat))"

text \<open>\<^verbatim>\<open>std::string::c_str\<close> read as a C string: it ends at the first zero byte.\<close>

definition c_str :: "string \<Rightarrow> string" where
  "c_str str = takeWhile (\<lambda>c. c \<noteq> CHR 0x00) str"

text \<open>
  \<^verbatim>\<open>sprintf(imagename, format.str().c_str(), i)\<close> into \<^verbatim>\<open>char imagename[1024]\<close>:
  the output and its terminating zero must fit.
\<close>

definition sprintf :: "string \<Rightarrow> int \<Rightarrow> fault + string" where
  "sprintf format i =
     (case printf Literal (c_str format) i False of
        Inl f \<Rightarrow> Inl f
      | Inr out \<Rightarrow> if length out < 1024 then Inr out else Inl BufferOverrun)"

subsection \<open>Loading an explicit range\<close>

definition typeid_T :: "pixel_type \<Rightarrow> type_name" where
  "typeid_T T = PixelsName T"

definition typeid_this :: "pixel_type \<Rightarrow> type_name" where
  "typeid_this T = ImageSequenceName T"

text \<open>
  The chain \<^verbatim>\<open>if (pixelType == typeid(ofPixels).name()) ... else if ... else\<close>
  of both loaders: it pushes a default buffer when \<open>pixelType\<close> is the name of one
  of the three buffer types, and is \<open>None\<close> in the last branch, where the loader
  reports the type and returns false.
\<close>

definition push_back_pixels :: "type_name \<Rightarrow> ofxImageSequence \<Rightarrow> ofxImageSequence option" where
  "push_back_pixels pixelType s =
     (if pixelType = typeid_T T_ofPixels then Some (s\<lparr>sequence := sequence s @ [ofPixels_new]\<rparr>)
      else if pixelType = typeid_T T_ofShortPixels then Some (s\<lparr>sequence := sequence s @ [ofPixels_new]\<rparr>)
      else if pixelType = typeid_T T_ofFloatPixels then Some (s\<lparr>sequence := sequence s @ [ofPixels_new]\<rparr>)
      else None)"

text \<open>
  The loop \<^verbatim>\<open>for (int i = startDigit; i <= endDigit; i++)\<close> of
  \<^verbatim>\<open>loadSequence\<close>, from \<open>i\<close> on. It returns \<open>(False, _)\<close> where the source
  returns false from inside the loop.
\<close>

function loadSequence_loop ::
  "pixel_type \<Rightarrow> string \<Rightarrow> int \<Rightarrow> int \<Rightarrow> ofxImageSequence \<Rightarrow> fault + bool \<times> ofxImageSequence" where
  "loadSequence_loop T format i endDigit s =
     (if i \<le> endDigit then
        case sprintf format i of
          Inl f \<Rightarrow> Inl f
        | Inr imagename \<Rightarrow>
            (case push_back_pixels (typeid_T T) (s\<lparr>filenames := filenames s @ [imagename]\<rparr>) of
               None \<Rightarrow>
                 Inr (False, ofLogError UnrecognisedType (s\<lparr>filenames := filenames s @ [imagename]\<rparr>))
             | Some s1 \<Rightarrow>
                 (case int_result (i + 1) of
                    Inl f \<Rightarrow> Inl f
                  | Inr i1 \<Rightarrow>
                      loadSequence_loop T format i1 endDigit
                        (s1\<lparr>loadFailed := loadFailed s1 @ [False]\<rparr>)))
      else Inr (True, s))"
  by pat_completeness auto
termination
  by (relation "measure (\<lambda>(T, format, i, endDigit, s). nat (endDigit + 1 - i))")
     (auto simp: int_result_def split: if_splits)

declare loadSequence_loop.simps [simp del]

text \<open>
  The format string that \<^verbatim>\<open>loadSequence\<close> streams together:
  \<^verbatim>\<open>format << prefix << "%0" << numDigits << "d." << filetype\<close>, or
  \<^verbatim>\<open>format << prefix << "%d." << filetype\<close> when \<^verbatim>\<open>numDigits\<close> is 0.
\<close>

definition image_format :: "string \<Rightarrow> string \<Rightarrow> int \<Rightarrow> string" where
  "image_format prefix filetype numDigits =
     (if numDigits \<noteq> 0
      then prefix @ ''%0'' @ show_int numDigits @ ''d.'' @ filetype
      else prefix @ ''%d.'' @ filetype)"

text \<open>
  \<^verbatim>\<open>loadSequence(prefix, filetype, startDigit, endDigit, numDigits)\<close>. The
  arguments \<open>startDigit\<close>, \<open>endDigit\<close> and \<open>numDigits\<close> are C \<^verbatim>\<open>int\<close> values.
\<close>

definition loadSequence ::
  "pixel_type \<Rightarrow> env \<Rightarrow> string \<Rightarrow> string \<Rightarrow> int \<Rightarrow> int \<Rightarrow> int \<Rightarrow> ofxImageSequence
     \<Rightarrow> fault + bool \<times> ofxImageSequence" where
  "loadSequence T e prefix filetype startDigit endDigit numDigits s0 =
     (let s = unloadSequence s0 in
      case int_result (endDigit - startDigit) of
        Inl f \<Rightarrow> Inl f
      | Inr d \<Rightarrow>
         (case int_result (d + 1) of
            Inl f \<Rightarrow> Inl f
          | Inr numFiles \<Rightarrow>
              if numFiles \<le> 0 then Inr (False, ofLogError NoImageFilesFound s)
              else
                (case loadSequence_loop T (image_format prefix filetype numDigits)
                        startDigit endDigit s of
                   Inl f \<Rightarrow> Inl f
                 | Inr (ok, s1) \<Rightarrow>
                     if \<not> ok then Inr (False, s1)
                     else
                       (case loadFrame e 0 (s1\<lparr>loaded := True, lastFrameLoaded := - 1\<rparr>) of
                          Inl f \<Rightarrow> Inl f
                        | Inr s2 \<Rightarrow>
                            (case vector_at (sequence s2) 0 of
                               Inl f \<Rightarrow> Inl f
                             | Inr p \<Rightarrow>
                                 Inr (True, s2\<lparr>width := of_nat (getWidth p),
                                               height := of_nat (getHeight p)\<rparr>))))))"

text \<open>The overload without \<^verbatim>\<open>numDigits\<close>.\<close>

definition loadSequence4 ::
  "pixel_type \<Rightarrow> env \<Rightarrow> string \<Rightarrow> string \<Rightarrow> int \<Rightarrow> int \<Rightarrow> ofxImageSequence
     \<Rightarrow> fault + bool \<times> ofxImageSequence" where
  "loadSequence4 T e prefix filetype startDigit endDigit s =
     loadSequence T e prefix filetype startDigit endDigit 0 s"

subsection \<open>Loading a folder\<close>

text \<open>
  The loop \<^verbatim>\<open>for (int i = 0; i < numFiles; i++)\<close> of \<^verbatim>\<open>preloadAllFilenames\<close>
  over the listing \<open>files\<close>, from \<open>i\<close> on; \<open>numFiles\<close> never exceeds the length
  of the listing. Here \<open>pixelType\<close> is \<^verbatim>\<open>typeid(*this).name()\<close>.
\<close>

function preloadAllFilenames_loop ::
  "pixel_type \<Rightarrow> string list \<Rightarrow> nat \<Rightarrow> nat \<Rightarrow> ofxImageSequence \<Rightarrow> bool \<times> ofxImageSequence" where
  "preloadAllFilenames_loop T files numFiles i s =
     (if i < numFiles then
        case push_back_pixels (typeid_this T) (s\<lparr>filenames := filenames s @ [files ! i]\<rparr>) of
          None \<Rightarrow> (False, ofLogError UnrecognisedType (s\<lparr>filenames := filenames s @ [files ! i]\<rparr>))
        | Some s1 \<Rightarrow>
            preloadAllFilenames_loop T files numFiles (Suc i)
              (s1\<lparr>loadFailed := loadFailed s1 @ [False]\<rparr>)
      else (True, s))"
  by pat_completeness auto
termination
  by (relation "measure (\<lambda>(T, files, numFiles, i, s). numFiles - i)") auto

declare preloadAllFilenames_loop.simps [simp del]

definition preloadAllFilenames ::
  "pixel_type \<Rightarrow> env \<Rightarrow> ofxImageSequence \<Rightarrow> bool \<times> ofxImageSequence" where
  "preloadAllFilenames T e s =
     (let files = listDir e (if extension s \<noteq> [] then [extension s] else []) (folderToLoad s) in
      if \<not> fileExists e (folderToLoad s)
      then (False, ofLogError (CouldNotFindFolder (folderToLoad s)) s)
      else
        let numFiles = (if maxFrames s > 0 then min (length files) (nat (maxFrames s))
                        else length files) in
        if numFiles = 0 then (False, ofLogError (NoImageFilesIn (folderToLoad s)) s)
        else preloadAllFilenames_loop T files numFiles 0 s)"

text \<open>
  \<^verbatim>\<open>loadSequence(folder)\<close>. In threaded mode it creates the loader, whose
  constructor starts the worker, and returns true at once.
\<close>

definition loadSequence_folder ::
  "pixel_type \<Rightarrow> env \<Rightarrow> string \<Rightarrow> ofxImageSequence \<Rightarrow> fault + bool \<times> ofxImageSequence" where
  "loadSequence_folder T e folder s0 =
     (let s = (unloadSequence s0)\<lparr>folderToLoad := folder\<rparr> in
      if useThread s
      then Inr (True, s\<lparr>threadLoader := Some \<lparr>loading = True, cancelLoading = False\<rparr>\<rparr>)
      else
        case preloadAllFilenames T e s of
          (ok, s1) \<Rightarrow>
            if ok then
              (case completeLoading e s1 of
                 Inl f \<Rightarrow> Inl f
               | Inr s2 \<Rightarrow> Inr (True, s2))
            else Inr (False, s1))"

section \<open>The background loader\<close>

text \<open>
  The worker's \<^verbatim>\<open>threadedFunction\<close> and the listener
  \<^verbatim>\<open>updateThreadedLoad\<close>, each as one uninterrupted run on the sequence that
  owns the loader. \<open>cancelledEarly\<close> is the value of \<^verbatim>\<open>cancelLoading\<close> read
  after the file names are resolved.
\<close>

definition update_loader :: "(loader \<Rightarrow> loader) \<Rightarrow> ofxImageSequence \<Rightarrow> ofxImageSequence" where
  "update_loader f s = s\<lparr>threadLoader := map_option f (threadLoader s)\<rparr>"

definition threadedFunction ::
  "pixel_type \<Rightarrow> env \<Rightarrow> bool \<Rightarrow> (nat \<Rightarrow> bool) \<Rightarrow> ofxImageSequence \<Rightarrow> fault + ofxImageSequence" where
  "threadedFunction T e cancelledEarly cancelSeen s =
     (case preloadAllFilenames T e s of
        (ok, s1) \<Rightarrow>
          if \<not> ok then Inr (update_loader (\<lambda>l. l\<lparr>loading := False\<rparr>) s1)
          else if cancelledEarly
          then Inr (update_loader (\<lambda>l. l\<lparr>loading := False, cancelLoading := False\<rparr>) s1)
          else
            (case preloadAllFrames e cancelSeen s1 of
               Inl f \<Rightarrow> Inl f
             | Inr s2 \<Rightarrow> Inr (update_loader (\<lambda>l. l\<lparr>loading := False\<rparr>) s2)))"

definition updateThreadedLoad :: "env \<Rightarrow> ofxImageSequence \<Rightarrow> fault + ofxImageSequence" where
  "updateThreadedLoad e s =
     (case threadLoader s of
        None \<Rightarrow> Inr s
      | Some l \<Rightarrow>
          if loading l then Inr s
          else if getTotalFrames s > 0 then completeLoading e s
          else Inr s)"

section \<open>Reachable sequences\<close>

text \<open>
  The sequences a program can hold: the constructed one, and the result of
  every call of a member function that returns, of a run of the worker, and of
  a change of the loader's flags by the other thread. \<^verbatim>\<open>setFrame\<close> at any
  index covers the accessors by time and by percent, which call it at the index
  they compute.
\<close>

inductive reachable :: "pixel_type \<Rightarrow> ofxImageSequence \<Rightarrow> bool" for T :: pixel_type where
  r_new: "reachable T (ofxImageSequence_new w h mn mg tex)"
| r_setExtension: "reachable T s \<Longrightarrow> reachable T (setExtension ext s)"
| r_setMaxFrames: "reachable T s \<Longrightarrow> reachable T (setMaxFrames n s)"
| r_enableThreadedLoad: "reachable T s \<Longrightarrow> reachable T (enableThreadedLoad b s)"
| r_loadSequence:
    "reachable T s \<Longrightarrow> loadSequence T e prefix filetype a b n s = Inr (r, s') \<Longrightarrow> reachable T s'"
| r_loadSequence_folder:
    "reachable T s \<Longrightarrow> loadSequence_folder T e folder s = Inr (r, s') \<Longrightarrow> reachable T s'"
| r_cancelLoad: "reachable T s \<Longrightarrow> reachable T (cancelLoad s)"
| r_preloadAllFrames:
    "reachable T s \<Longrightarrow> preloadAllFrames e cancelSeen s = Inr s' \<Longrightarrow> reachable T s'"
| r_unloadSequence: "reachable T s \<Longrightarrow> reachable T (unloadSequence s)"
| r_setFrameRate: "reachable T s \<Longrightarrow> reachable T (setFrameRate rate s)"
| r_setFrame: "reachable T s \<Longrightarrow> setFrame e index s = Inr s' \<Longrightarrow> reachable T s'"
| r_getFilePath: "reachable T s \<Longrightarrow> reachable T (snd (getFilePath index s))"
| r_loadFrame: "reachable T s \<Longrightarrow> loadFrame e index s = Inr s' \<Longrightarrow> reachable T s'"
| r_setMinMagFilter: "reachable T s \<Longrightarrow> reachable T (setMinMagFilter mn mg s)"
| r_completeLoading: "reachable T s \<Longrightarrow> completeLoading e s = Inr s' \<Longrightarrow> reachable T s'"
| r_preloadAllFilenames: "reachable T s \<Longrightarrow> reachable T (snd (preloadAllFilenames T e s))"
| r_threadedFunction:
    "reachable T s \<Longrightarrow> threadedFunction T e cancelledEarly cancelSeen s = Inr s' \<Longrightarrow> reachable T s'"
| r_updateThreadedLoad: "reachable T s \<Longrightarrow> updateThreadedLoad e s = Inr s' \<Longrightarrow> reachable T s'"
| r_loader_flags: "reachable T s \<Longrightarrow> reachable T (update_loader f s)"

section \<open>The class invariant on the three vectors\<close>

text \<open>
  \<^verbatim>\<open>sequence\<close> and \<^verbatim>\<open>loadFailed\<close> have one entry per frame, and
  \<^verbatim>\<open>filenames\<close> at least as many: a loader that returns false from inside its
  loop has pushed the file name but not the buffer.
\<close>

definition vectors_aligned :: "ofxImageSequence \<Rightarrow> bool" where
  "vectors_aligned s \<longleftrightarrow>
     length (loadFailed s) = length (sequence s) \<and> length (sequence s) \<le> length (filenames s)"

text \<open>
  Two sequences of the same shape: the same \<^verbatim>\<open>loaded\<close> flag, the same
  loader and the same lengths of the three vectors. The invariant of the class: the vectors are
  aligned, and a loaded sequence has at least one frame.
\<close>

definition same_shape :: "ofxImageSequence \<Rightarrow> ofxImageSequence \<Rightarrow> bool" where
  "same_shape s s' \<longleftrightarrow>
     loaded s' = loaded s \<and> threadLoader s' = threadLoader s \<and>
     length (sequence s') = length (sequence s) \<and>
     length (filenames s') = length (filenames s) \<and>
     length (loadFailed s') = length (loadFailed s)"

definition sequence_invariant :: "ofxImageSequence \<Rightarrow> bool" where
  "sequence_invariant s \<longleftrightarrow> vectors_aligned s \<and> (loaded s \<longrightarrow> sequence s \<noteq> [])"

text \<open>
  A run of \<^verbatim>\<open>preloadAllFrames\<close> that nothing stops: the load is not
  threaded, or the loader exists and its flag is clear at every round.
\<close>

definition uninterrupted :: "(nat \<Rightarrow> bool) \<Rightarrow> ofxImageSequence \<Rightarrow> bool" where
  "uninterrupted cancelSeen s \<longleftrightarrow>
     \<not> useThread s \<or>
     (threadLoader s \<noteq> None \<and> \<not> cancelLoading (the (threadLoader s)) \<and>
      (\<forall>j\<in>set [0..<length (sequence s)]. \<not> cancelSeen j))"

text \<open>\<open>no_cancel\<close>: the cancellation flag is never seen set.\<close>

definition no_cancel :: "nat \<Rightarrow> bool" where
  "no_cancel i \<longleftrightarrow> False"

text \<open>
  A run of \<^verbatim>\<open>loadFrame\<close> calls, one per index of the list, in order. A frame
  is settled when its buffer is allocated or it is marked failed: the two tests
  that keep \<^verbatim>\<open>loadFrame\<close> from decoding. The decoder allocates when every
  buffer it fills for a path of the sequence is allocated, as \<^verbatim>\<open>ofLoadImage\<close>
  does when it returns true.
\<close>

fun loadFrames :: "env \<Rightarrow> int list \<Rightarrow> ofxImageSequence \<Rightarrow> fault + ofxImageSequence" where
  "loadFrames e [] s = Inr s"
| "loadFrames e (index # rest) s =
     (case loadFrame e index s of
        Inl f \<Rightarrow> Inl f
      | Inr s1 \<Rightarrow> loadFrames e rest s1)"

definition settled :: "ofxImageSequence \<Rightarrow> nat \<Rightarrow> bool" where
  "settled s i \<longleftrightarrow> isAllocated (sequence s ! i) \<or> loadFailed s ! i"

definition decoder_allocates :: "env \<Rightarrow> ofxImageSequence \<Rightarrow> bool" where
  "decoder_allocates e s \<longleftrightarrow>
     (\<forall>path\<in>set (filenames s).
        case ofLoadImage e path of None \<Rightarrow> True | Some p \<Rightarrow> isAllocated p)"

section \<open>Concrete runs\<close>

text \<open>
  A small file system: \<^verbatim>\<open>img8.png\<close> and \<^verbatim>\<open>img10.png\<close> decode,
  \<^verbatim>\<open>img9.png\<close> does not, and the folder \<^verbatim>\<open>frames\<close> holds two files of
  which the first decodes.
\<close>

definition example_pixels :: "string \<Rightarrow> ofPixels" where
  "example_pixels d = \<lparr>isAllocated = True, getWidth = 4, getHeight = 3, pixData = d\<rparr>"

definition example_env :: env where
  "example_env =
     \<lparr>ofLoadImage = (\<lambda>path. if path = ''img8.png'' then Some (example_pixels ''eight'')
                            else if path = ''img10.png'' then Some (example_pixels ''ten'')
                            else if path = ''frames/a.png'' then Some (example_pixels ''a'')
                            else None),
      fileExists = (\<lambda>path. path = ''frames''),
      listDir = (\<lambda>exts folder. if folder = ''frames''
                                 then [''frames/a.png'', ''frames/b.png''] else [])\<rparr>"

definition example_new :: ofxImageSequence where
  "example_new =
     ofxImageSequence_new 0 0 0 0 \<lparr>texData = None, texMinFilter = 0, texMagFilter = 0\<rparr>"

text \<open>
  The sequence after \<^verbatim>\<open>loadSequence("img", "png", 8, 10)\<close> on a new object:
  three frames, the first decoded and shown.
\<close>

definition example_loaded :: ofxImageSequence where
  "example_loaded =
     example_new
       \<lparr>sequence := [example_pixels ''eight'', ofPixels_new, ofPixels_new],
        filenames := [''img8.png'', ''img9.png'', ''img10.png''],
        loadFailed := [False, False, False],
        texture := \<lparr>texData = Some (example_pixels ''eight''), texMinFilter = 0, texMagFilter = 0\<rparr>,
        loaded := True, width := 4, height := 3, lastFrameLoaded := 0,
        decodeLog := [0]\<rparr>"

text \<open>
  The sequence after \<^verbatim>\<open>loadSequence("img", "png", 8, 10, 3)\<close> on a new object:
  \<^verbatim>\<open>img008.png\<close> does not decode, so the first frame is marked failed.
\<close>

definition example_padded :: ofxImageSequence where
  "example_padded =
     example_new
       \<lparr>sequence := [ofPixels_new, ofPixels_new, ofPixels_new],
        filenames := [''img008.png'', ''img009.png'', ''img010.png''],
        loadFailed := [True, False, False],
        loaded := True,
        errorLog := [ImageFailedToLoad ''img008.png''],
        decodeLog := [0]\<rparr>"

text \<open>
  The sequence after \<^verbatim>\<open>loadSequence("img", "png", 1, 10)\<close> on a new object:
  ten frames, of which the first, \<^verbatim>\<open>img1.png\<close>, does not decode.
\<close>

definition example_ten :: ofxImageSequence where
  "example_ten =
     example_new
       \<lparr>sequence := replicate 10 ofPixels_new,
        filenames := [''img1.png'', ''img2.png'', ''img3.png'', ''img4.png'', ''img5.png'',
                      ''img6.png'', ''img7.png'', ''img8.png'', ''img9.png'', ''img10.png''],
        loadFailed := True # replicate 9 False,
        loaded := True,
        errorLog := [ImageFailedToLoad ''img1.png''],
        decodeLog := [0]\<rparr>"



section \<open>Properties of \<^verbatim>\<open>loadFrame\<close>\<close>

text \<open>The five ways through \<^verbatim>\<open>loadFrame\<close>, each with the sequence it returns.\<close>

lemma loadFrame_last: "lastFrameLoaded s = index \<Longrightarrow> loadFrame e index s = Inr s"
  by (simp add: loadFrame_def)

lemma loadFrame_failed:
  assumes "0 \<le> index" "index < int (length (sequence s))" "vectors_aligned s"
    and "lastFrameLoaded s \<noteq> index" "loadFailed s ! nat index"
  shows "loadFrame e index s = Inr s"
  using assms by (simp add: loadFrame_def vectors_aligned_def Let_def)

lemma loadFrame_cached:
  assumes "0 \<le> index" "index < int (length (sequence s))" "vectors_aligned s"
    and "lastFrameLoaded s \<noteq> index" "\<not> loadFailed s ! nat index"
    and "isAllocated (sequence s ! nat index)"
  shows "loadFrame e index s =
           Inr (s\<lparr>texture := (texture s)\<lparr>texData := Some (sequence s ! nat index)\<rparr>,
                  lastFrameLoaded := index\<rparr>)"
  using assms by (simp add: loadFrame_def vectors_aligned_def Let_def)

lemma loadFrame_decoded:
  assumes "0 \<le> index" "index < int (length (sequence s))" "vectors_aligned s"
    and "lastFrameLoaded s \<noteq> index" "\<not> loadFailed s ! nat index"
    and "\<not> isAllocated (sequence s ! nat index)"
    and "ofLoadImage e (filenames s ! nat index) = Some p"
  shows "loadFrame e index s =
           Inr (s\<lparr>decodeLog := decodeLog s @ [nat index],
                  sequence := (sequence s)[nat index := p],
                  texture := (texture s)\<lparr>texData := Some p\<rparr>,
                  lastFrameLoaded := index\<rparr>)"
  using assms by (simp add: loadFrame_def tryLoadImage_def vectors_aligned_def Let_def)

lemma loadFrame_decode_failed:
  assumes "0 \<le> index" "index < int (length (sequence s))" "vectors_aligned s"
    and "lastFrameLoaded s \<noteq> index" "\<not> loadFailed s ! nat index"
    and "\<not> isAllocated (sequence s ! nat index)"
    and "ofLoadImage e (filenames s ! nat index) = None"
  shows "loadFrame e index s =
           Inr (s\<lparr>decodeLog := decodeLog s @ [nat index],
                  loadFailed := (loadFailed s)[nat index := True],
                  errorLog := errorLog s @ [ImageFailedToLoad (filenames s ! nat index)]\<rparr>)"
  using assms
  by (simp add: loadFrame_def tryLoadImage_def ofLogError_def vectors_aligned_def Let_def)

lemma example_loaded_run:
  "loadSequence T_ofPixels example_env ''img'' ''png'' 8 10 0 example_new
     = Inr (True, example_loaded)"
  by code_simp

lemma example_loaded_aligned: "vectors_aligned example_loaded"
  by code_simp

text \<open>
  C10. \<^verbatim>\<open>loadFrame\<close> compares the index with \<^verbatim>\<open>lastFrameLoaded\<close> before it
  checks the bounds. So a call at the index last loaded returns the sequence as
  it is, with no report; in particular \<^verbatim>\<open>loadFrame(-1)\<close> is accepted without a
  report while \<^verbatim>\<open>lastFrameLoaded\<close> is \<open>-1\<close>. Any other index below 0 or not
  below the number of frames is reported, and the report is the only change.
\<close>

theorem loadFrame_same_index_precedes_bounds:
  "(index = lastFrameLoaded s \<longrightarrow> loadFrame e index s = Inr s) \<and>
   (lastFrameLoaded s = - 1 \<longrightarrow> loadFrame e (- 1) s = Inr s) \<and>
   (index \<noteq> lastFrameLoaded s \<and> (index < 0 \<or> int (length (sequence s)) \<le> index) \<longrightarrow>
      loadFrame e index s = Inr (s\<lparr>errorLog := errorLog s @ [FrameOutOfBounds index]\<rparr>))"
  by (simp add: loadFrame_def ofLogError_def)

theorem loadFrame_same_index_precedes_bounds_witness:
  "lastFrameLoaded example_loaded = 0 \<and>
   loadFrame example_env 0 example_loaded = Inr example_loaded \<and>
   lastFrameLoaded example_new = - 1 \<and>
   loadFrame example_env (- 1) example_new = Inr example_new \<and>
   7 \<noteq> lastFrameLoaded example_loaded \<and> int (length (sequence example_loaded)) \<le> 7 \<and>
   loadFrame example_env 7 example_loaded
     = Inr (example_loaded\<lparr>errorLog := errorLog example_loaded @ [FrameOutOfBounds 7]\<rparr>)"
proof -
  have a: "lastFrameLoaded example_loaded = 0" by code_simp
  have b: "lastFrameLoaded example_new = - 1" by code_simp
  have c: "7 \<noteq> lastFrameLoaded example_loaded" by code_simp
  have d: "int (length (sequence example_loaded)) \<le> 7" by code_simp
  from a loadFrame_same_index_precedes_bounds [of 0 example_loaded example_env]
  have 1: "loadFrame example_env 0 example_loaded = Inr example_loaded" by simp
  from b loadFrame_same_index_precedes_bounds [of "- 1" example_new example_env]
  have 2: "loadFrame example_env (- 1) example_new = Inr example_new" by simp
  from c d loadFrame_same_index_precedes_bounds [of 7 example_loaded example_env]
  have 3: "loadFrame example_env 7 example_loaded
             = Inr (example_loaded\<lparr>errorLog := errorLog example_loaded @ [FrameOutOfBounds 7]\<rparr>)"
    by blast
  from a b c d 1 2 3 show ?thesis by blast
qed

text \<open>
  Two calls in a row at a valid index: both return, the second never decodes,
  and the first decodes exactly when the frame is not the one last loaded and
  not settled.
\<close>

lemma loadFrame_twice:
  assumes v: "0 \<le> index" "index < int (length (sequence s))" and a: "vectors_aligned s"
  shows "\<exists>s1 s2. loadFrame e index s = Inr s1 \<and> loadFrame e index s1 = Inr s2 \<and>
           decodeLog s2 = decodeLog s1 \<and>
           decodeLog s1 = decodeLog s @
             (if lastFrameLoaded s \<noteq> index \<and> \<not> isAllocated (sequence s ! nat index)
                 \<and> \<not> loadFailed s ! nat index
              then [nat index] else [])"
proof -
  consider (last) "lastFrameLoaded s = index"
    | (failed) "lastFrameLoaded s \<noteq> index" "loadFailed s ! nat index"
    | (cached) "lastFrameLoaded s \<noteq> index" "\<not> loadFailed s ! nat index"
        "isAllocated (sequence s ! nat index)"
    | (ok) p where "lastFrameLoaded s \<noteq> index" "\<not> loadFailed s ! nat index"
        "\<not> isAllocated (sequence s ! nat index)" "ofLoadImage e (filenames s ! nat index) = Some p"
    | (bad) "lastFrameLoaded s \<noteq> index" "\<not> loadFailed s ! nat index"
        "\<not> isAllocated (sequence s ! nat index)" "ofLoadImage e (filenames s ! nat index) = None"
    by (cases "ofLoadImage e (filenames s ! nat index)") auto
  then show ?thesis
  proof cases
    case last
    then show ?thesis by (simp add: loadFrame_last)
  next
    case failed
    then show ?thesis using v a by (simp add: loadFrame_failed)
  next
    case cached
    then show ?thesis using v a by (simp add: loadFrame_cached loadFrame_last)
  next
    case ok
    then show ?thesis using v a by (simp add: loadFrame_decoded loadFrame_last)
  next
    case bad
    let ?s1 = "s\<lparr>decodeLog := decodeLog s @ [nat index],
                  loadFailed := (loadFailed s)[nat index := True],
                  errorLog := errorLog s @ [ImageFailedToLoad (filenames s ! nat index)]\<rparr>"
    have 1: "loadFrame e index s = Inr ?s1"
      by (rule loadFrame_decode_failed [OF v a bad])
    have "vectors_aligned ?s1" using a by (simp add: vectors_aligned_def)
    moreover have "loadFailed ?s1 ! nat index" using v a by (simp add: vectors_aligned_def)
    ultimately have 2: "loadFrame e index ?s1 = Inr ?s1"
      using v bad by (intro loadFrame_failed) simp_all
    show ?thesis using 1 2 bad by simp
  qed
qed

text \<open>
  One call of \<^verbatim>\<open>loadFrame\<close>, when the decoder allocates: it returns, settled
  frames stay settled, and either nothing is decoded or one frame that was not
  settled is decoded and is settled afterwards.
\<close>

lemma loadFrame_step_same:
  assumes "loadFrame e index s = Inr s'" "vectors_aligned s'" "filenames s' = filenames s"
    "sequence s' = sequence s" "loadFailed s' = loadFailed s" "decodeLog s' = decodeLog s"
  shows "\<exists>s'. loadFrame e index s = Inr s' \<and> vectors_aligned s' \<and> filenames s' = filenames s \<and>
           length (sequence s') = length (sequence s) \<and>
           (\<forall>j<length (sequence s). settled s j \<longrightarrow> settled s' j) \<and>
           (decodeLog s' = decodeLog s \<or>
            (\<exists>i<length (sequence s). index = int i \<and> \<not> settled s i \<and> settled s' i \<and>
               decodeLog s' = decodeLog s @ [i]))"
  using assms by (intro exI [of _ s']) (simp add: settled_def)

lemma loadFrame_step_decode:
  assumes "loadFrame e index s = Inr s'" "vectors_aligned s'" "filenames s' = filenames s"
    "length (sequence s') = length (sequence s)"
    "\<forall>j<length (sequence s). settled s j \<longrightarrow> settled s' j"
    "i < length (sequence s)" "index = int i" "\<not> settled s i" "settled s' i"
    "decodeLog s' = decodeLog s @ [i]"
  shows "\<exists>s'. loadFrame e index s = Inr s' \<and> vectors_aligned s' \<and> filenames s' = filenames s \<and>
           length (sequence s') = length (sequence s) \<and>
           (\<forall>j<length (sequence s). settled s j \<longrightarrow> settled s' j) \<and>
           (decodeLog s' = decodeLog s \<or>
            (\<exists>i<length (sequence s). index = int i \<and> \<not> settled s i \<and> settled s' i \<and>
               decodeLog s' = decodeLog s @ [i]))"
  using assms by blast

lemma loadFrame_step:
  assumes a: "vectors_aligned s" and d: "decoder_allocates e s"
  shows "\<exists>s'. loadFrame e index s = Inr s' \<and> vectors_aligned s' \<and> filenames s' = filenames s \<and>
           length (sequence s') = length (sequence s) \<and>
           (\<forall>j<length (sequence s). settled s j \<longrightarrow> settled s' j) \<and>
           (decodeLog s' = decodeLog s \<or>
            (\<exists>i<length (sequence s). index = int i \<and> \<not> settled s i \<and> settled s' i \<and>
               decodeLog s' = decodeLog s @ [i]))"
proof (cases "lastFrameLoaded s = index")
  case True
  then have "loadFrame e index s = Inr s" by (rule loadFrame_last)
  then show ?thesis using a by (rule loadFrame_step_same) simp_all
next
  case nl: False
  show ?thesis
  proof (cases "index < 0 \<or> int (length (sequence s)) \<le> index")
    case True
    with nl have "loadFrame e index s = Inr (s\<lparr>errorLog := errorLog s @ [FrameOutOfBounds index]\<rparr>)"
      by (simp add: loadFrame_def ofLogError_def)
    then show ?thesis
      by (rule loadFrame_step_same) (use a in \<open>simp_all add: vectors_aligned_def\<close>)
  next
    case False
    then have v: "0 \<le> index" "index < int (length (sequence s))" by simp_all
    then have i: "nat index < length (sequence s)" "index = int (nat index)" by simp_all
    have lf: "length (loadFailed s) = length (sequence s)" using a by (simp add: vectors_aligned_def)
    show ?thesis
    proof (cases "loadFailed s ! nat index")
      case True
      with v a nl have "loadFrame e index s = Inr s" by (intro loadFrame_failed)
      then show ?thesis using a by (rule loadFrame_step_same) simp_all
    next
      case nf: False
      show ?thesis
      proof (cases "isAllocated (sequence s ! nat index)")
        case True
        with v a nl nf have "loadFrame e index s =
           Inr (s\<lparr>texture := (texture s)\<lparr>texData := Some (sequence s ! nat index)\<rparr>,
                  lastFrameLoaded := index\<rparr>)"
          by (intro loadFrame_cached)
        then show ?thesis
          by (rule loadFrame_step_same) (use a in \<open>simp_all add: vectors_aligned_def\<close>)
      next
        case na: False
        have ns: "\<not> settled s (nat index)" using nf na by (simp add: settled_def)
        show ?thesis
        proof (cases "ofLoadImage e (filenames s ! nat index)")
          case None
          let ?s' = "s\<lparr>decodeLog := decodeLog s @ [nat index],
                  loadFailed := (loadFailed s)[nat index := True],
                  errorLog := errorLog s @ [ImageFailedToLoad (filenames s ! nat index)]\<rparr>"
          have l: "loadFrame e index s = Inr ?s'"
            using v a nl nf na None by (rule loadFrame_decode_failed)
          have m: "\<forall>j<length (sequence s). settled s j \<longrightarrow> settled ?s' j"
            using lf i by (auto simp: settled_def nth_list_update)
          have st: "settled ?s' (nat index)" using i lf by (simp add: settled_def)
          show ?thesis
            by (rule loadFrame_step_decode [OF l _ _ _ m i(1) i(2) ns st])
               (use a in \<open>simp_all add: vectors_aligned_def\<close>)
        next
          case (Some p)
          let ?s' = "s\<lparr>decodeLog := decodeLog s @ [nat index],
                  sequence := (sequence s)[nat index := p],
                  texture := (texture s)\<lparr>texData := Some p\<rparr>,
                  lastFrameLoaded := index\<rparr>"
          have l: "loadFrame e index s = Inr ?s'"
            using v a nl nf na Some by (rule loadFrame_decoded)
          have "filenames s ! nat index \<in> set (filenames s)"
            using a i by (simp add: vectors_aligned_def)
          with d Some have al: "isAllocated p" by (auto simp: decoder_allocates_def)
          have m: "\<forall>j<length (sequence s). settled s j \<longrightarrow> settled ?s' j"
            using al i by (auto simp: settled_def nth_list_update)
          have st: "settled ?s' (nat index)" using i al by (simp add: settled_def)
          show ?thesis
            by (rule loadFrame_step_decode [OF l _ _ _ m i(1) i(2) ns st])
               (use a in \<open>simp_all add: vectors_aligned_def\<close>)
        qed
      qed
    qed
  qed
qed

text \<open>
  Any run of \<^verbatim>\<open>loadFrame\<close> calls, when the decoder allocates: the frames it
  decodes are distinct and none of them was settled at the start.
\<close>

lemma loadFrames_decode_once:
  assumes "vectors_aligned s" "decoder_allocates e s"
  shows "\<exists>s' new. loadFrames e indices s = Inr s' \<and> decodeLog s' = decodeLog s @ new \<and>
           distinct new \<and> (\<forall>i\<in>set new. i < length (sequence s) \<and> \<not> settled s i)"
  using assms
proof (induction indices arbitrary: s)
  case Nil
  have "loadFrames e [] s = Inr s \<and> decodeLog s = decodeLog s @ [] \<and>
           distinct ([]::nat list) \<and> (\<forall>i\<in>set []. i < length (sequence s) \<and> \<not> settled s i)"
    by simp
  then show ?case by blast
next
  case (Cons index rest)
  from loadFrame_step [OF Cons.prems, of index] obtain s1 where
    s1: "loadFrame e index s = Inr s1" "vectors_aligned s1" "filenames s1 = filenames s"
      "length (sequence s1) = length (sequence s)"
      "\<forall>j<length (sequence s). settled s j \<longrightarrow> settled s1 j"
      "decodeLog s1 = decodeLog s \<or>
         (\<exists>i<length (sequence s). index = int i \<and> \<not> settled s i \<and> settled s1 i \<and>
               decodeLog s1 = decodeLog s @ [i])"
    by blast
  have d1: "decoder_allocates e s1" using Cons.prems(2) s1(3) by (simp add: decoder_allocates_def)
  from Cons.IH [OF s1(2) d1] obtain s' new where
    r: "loadFrames e rest s1 = Inr s'" "decodeLog s' = decodeLog s1 @ new" "distinct new"
      "\<forall>i\<in>set new. i < length (sequence s1) \<and> \<not> settled s1 i"
    by blast
  have run: "loadFrames e (index # rest) s = Inr s'" using s1(1) r(1) by simp
  have old: "\<forall>i\<in>set new. i < length (sequence s) \<and> \<not> settled s i"
  proof
    fix i assume "i \<in> set new"
    with r(4) have "i < length (sequence s1)" "\<not> settled s1 i" by blast+
    with s1(4,5) show "i < length (sequence s) \<and> \<not> settled s i" by metis
  qed
  from s1(6) show ?case
  proof
    assume "decodeLog s1 = decodeLog s"
    with r(2) have "decodeLog s' = decodeLog s @ new" by simp
    with run r(3) old show ?thesis by blast
  next
    assume "\<exists>i<length (sequence s). index = int i \<and> \<not> settled s i \<and> settled s1 i \<and>
               decodeLog s1 = decodeLog s @ [i]"
    then obtain i where i: "i < length (sequence s)" "\<not> settled s i" "settled s1 i"
      "decodeLog s1 = decodeLog s @ [i]" by blast
    from i(3) r(4) have "i \<notin> set new" by blast
    with r(3) have 1: "distinct (i # new)" by simp
    have 2: "decodeLog s' = decodeLog s @ (i # new)" using r(2) i(4) by simp
    have 3: "\<forall>j\<in>set (i # new). j < length (sequence s) \<and> \<not> settled s j"
      using old i(1,2) by simp
    from run 1 2 3 show ?thesis by blast
  qed
qed

lemma example_loaded_allocates: "decoder_allocates example_env example_loaded"
  by code_simp

text \<open>
  C2, as stated, fails: decoding is not limited to one attempt per frame in a
  load session. \<^verbatim>\<open>loadSequence("img", "png", 8, 10)\<close> decodes frame 0, and
  \<^verbatim>\<open>preloadAllFrames\<close> on the sequence it leaves decodes frame 0 again.
\<close>

theorem preloadAllFrames_decodes_again_counterexample:
  "loadSequence T_ofPixels example_env ''img'' ''png'' 8 10 0 example_new
     = Inr (True, example_loaded) \<and>
   decodeLog example_loaded = [0] \<and>
   map_sum id decodeLog (preloadAllFrames example_env no_cancel example_loaded)
     = Inr [0, 0, 1, 2]"
  by code_simp

text \<open>
  C2, amended to \<^verbatim>\<open>loadFrame\<close> alone. On aligned vectors and with a decoder
  that allocates, every run of \<^verbatim>\<open>loadFrame\<close> calls returns and hands each
  frame to the decoder at most once, and never a frame whose buffer was set or
  that was marked failed when the run began. In particular two calls in a row at
  a valid index decode the frame exactly once when it is neither decoded, nor
  marked failed, nor the frame last loaded, and not at all otherwise.
\<close>

theorem loadFrame_decodes_each_frame_once:
  assumes a: "vectors_aligned s" and d: "decoder_allocates e s"
  shows "(\<exists>s' new. loadFrames e indices s = Inr s' \<and> decodeLog s' = decodeLog s @ new \<and>
            distinct new \<and>
            (\<forall>i\<in>set new. i < length (sequence s) \<and> \<not> isAllocated (sequence s ! i) \<and>
                           \<not> loadFailed s ! i)) \<and>
         (0 \<le> index \<and> index < int (length (sequence s)) \<longrightarrow>
            (\<exists>s'. loadFrames e [index, index] s = Inr s' \<and>
               decodeLog s' = decodeLog s @
                 (if lastFrameLoaded s \<noteq> index \<and> \<not> isAllocated (sequence s ! nat index)
                     \<and> \<not> loadFailed s ! nat index
                  then [nat index] else [])))"
proof (intro conjI impI)
  from loadFrames_decode_once [OF a d, of indices]
  show "\<exists>s' new. loadFrames e indices s = Inr s' \<and> decodeLog s' = decodeLog s @ new \<and>
            distinct new \<and>
            (\<forall>i\<in>set new. i < length (sequence s) \<and> \<not> isAllocated (sequence s ! i) \<and>
                           \<not> loadFailed s ! i)"
    by (simp add: settled_def)
next
  assume "0 \<le> index \<and> index < int (length (sequence s))"
  then have v: "0 \<le> index" "index < int (length (sequence s))" by simp_all
  from loadFrame_twice [OF v a, of e] obtain s1 s2 where
    "loadFrame e index s = Inr s1" "loadFrame e index s1 = Inr s2" "decodeLog s2 = decodeLog s1"
    "decodeLog s1 = decodeLog s @
       (if lastFrameLoaded s \<noteq> index \<and> \<not> isAllocated (sequence s ! nat index)
           \<and> \<not> loadFailed s ! nat index
        then [nat index] else [])"
    by blast
  then show "\<exists>s'. loadFrames e [index, index] s = Inr s' \<and>
               decodeLog s' = decodeLog s @
                 (if lastFrameLoaded s \<noteq> index \<and> \<not> isAllocated (sequence s ! nat index)
                     \<and> \<not> loadFailed s ! nat index
                  then [nat index] else [])"
    by simp
qed

theorem loadFrame_decodes_each_frame_once_witness:
  "vectors_aligned example_loaded \<and> decoder_allocates example_env example_loaded \<and>
   (\<exists>s' new. loadFrames example_env [2, 0, 2, 1, 2, 1] example_loaded = Inr s' \<and>
      decodeLog s' = decodeLog example_loaded @ new \<and> distinct new) \<and>
   0 \<le> (2::int) \<and> 2 < int (length (sequence example_loaded)) \<and>
   (\<exists>s'. loadFrames example_env [2, 2] example_loaded = Inr s' \<and> decodeLog s' = [0, 2])"
proof -
  have v: "0 \<le> (2::int) \<and> 2 < int (length (sequence example_loaded))" by code_simp
  have l: "decodeLog example_loaded @
             (if lastFrameLoaded example_loaded \<noteq> 2 \<and> \<not> isAllocated (sequence example_loaded ! nat 2)
                 \<and> \<not> loadFailed example_loaded ! nat 2
              then [nat 2] else []) = [0, 2]"
    by code_simp
  note t = loadFrame_decodes_each_frame_once
    [OF example_loaded_aligned example_loaded_allocates, of "[2, 0, 2, 1, 2, 1]" 2]
  from t have 1: "\<exists>s' new. loadFrames example_env [2, 0, 2, 1, 2, 1] example_loaded = Inr s' \<and>
      decodeLog s' = decodeLog example_loaded @ new \<and> distinct new"
    by blast
  from t v have "\<exists>s'. loadFrames example_env [2, 2] example_loaded = Inr s' \<and>
      decodeLog s' = decodeLog example_loaded @
             (if lastFrameLoaded example_loaded \<noteq> 2 \<and> \<not> isAllocated (sequence example_loaded ! nat 2)
                 \<and> \<not> loadFailed example_loaded ! nat 2
              then [nat 2] else [])"
    by blast
  then have 2: "\<exists>s'. loadFrames example_env [2, 2] example_loaded = Inr s' \<and> decodeLog s' = [0, 2]"
    unfolding l .
  from example_loaded_aligned example_loaded_allocates 1 v 2 show ?thesis by blast
qed

section \<open>Properties of \<^verbatim>\<open>preloadAllFrames\<close>\<close>

lemma tryLoadImage_Inr:
  assumes "i < length (sequence s)" "vectors_aligned s"
  shows "tryLoadImage e i s =
           Inr (case ofLoadImage e (filenames s ! i) of
                  Some p \<Rightarrow> s\<lparr>decodeLog := decodeLog s @ [i], sequence := (sequence s)[i := p]\<rparr>
                | None \<Rightarrow> s\<lparr>decodeLog := decodeLog s @ [i],
                             loadFailed := (loadFailed s)[i := True],
                             errorLog := errorLog s @ [ImageFailedToLoad (filenames s ! i)]\<rparr>)"
  using assms
  by (simp add: tryLoadImage_def vectors_aligned_def ofLogError_def Let_def split: option.splits)

text \<open>
  The loop from round \<open>i\<close>, when nothing stops it: it returns, it has handed
  every frame from \<open>i\<close> on to the decoder in order, it has marked those that
  failed and stored those that decoded, and it has touched neither the texture
  nor \<^verbatim>\<open>lastFrameLoaded\<close>.
\<close>

lemma preloadAllFrames_loop_runs:
  assumes "vectors_aligned s" "uninterrupted cancelSeen s"
  shows "\<exists>s'. preloadAllFrames_loop e cancelSeen i s = Inr s' \<and>
           decodeLog s' = decodeLog s @ [i..<length (sequence s)] \<and>
           texture s' = texture s \<and> lastFrameLoaded s' = lastFrameLoaded s \<and>
           filenames s' = filenames s \<and> loaded s' = loaded s \<and>
           length (sequence s') = length (sequence s) \<and>
           length (loadFailed s') = length (loadFailed s) \<and>
           (\<forall>j<length (sequence s).
              loadFailed s' ! j = (loadFailed s ! j \<or> i \<le> j \<and> ofLoadImage e (filenames s ! j) = None) \<and>
              sequence s' ! j = (if i \<le> j then case ofLoadImage e (filenames s ! j) of
                                                 Some p \<Rightarrow> p | None \<Rightarrow> sequence s ! j
                                 else sequence s ! j))"
  using assms
proof (induction e cancelSeen i s rule: preloadAllFrames_loop.induct)
  case (1 e cancelSeen i s)
  show ?case
  proof (cases "i < length (sequence s)")
    case False
    then show ?thesis by (subst preloadAllFrames_loop.simps) simp
  next
    case True
    let ?s0 = "s\<lparr>curLoadFrame := int i\<rparr>"
    let ?s1 = "case ofLoadImage e (filenames s ! i) of
                  Some p \<Rightarrow> ?s0\<lparr>decodeLog := decodeLog s @ [i], sequence := (sequence s)[i := p]\<rparr>
                | None \<Rightarrow> ?s0\<lparr>decodeLog := decodeLog s @ [i],
                             loadFailed := (loadFailed s)[i := True],
                             errorLog := errorLog s @ [ImageFailedToLoad (filenames s ! i)]\<rparr>"
    have a0: "vectors_aligned ?s0" using "1.prems" by (simp add: vectors_aligned_def)
    have t: "tryLoadImage e i ?s0 = Inr ?s1"
      using tryLoadImage_Inr [of i ?s0 e] True a0 by (simp split: option.splits)
    have c1: "\<not> (useThread s \<and> threadLoader s = None)"
      using "1.prems" by (auto simp: uninterrupted_def)
    have c2: "\<not> (useThread s \<and> (cancelLoading (the (threadLoader s)) \<or> cancelSeen i))"
      using "1.prems" True by (auto simp: uninterrupted_def)
    have a1: "vectors_aligned ?s1" using "1.prems"
      by (simp add: vectors_aligned_def split: option.splits)
    have u1: "uninterrupted cancelSeen ?s1" using "1.prems"
      by (simp add: uninterrupted_def split: option.splits)
    from "1.IH" [OF True c1 c2 t a1 u1]
    obtain s' where s': "preloadAllFrames_loop e cancelSeen (Suc i) ?s1 = Inr s'"
      "decodeLog s' = decodeLog ?s1 @ [Suc i..<length (sequence ?s1)]"
      "texture s' = texture ?s1" "lastFrameLoaded s' = lastFrameLoaded ?s1"
      "filenames s' = filenames ?s1" "loaded s' = loaded ?s1"
      "length (sequence s') = length (sequence ?s1)"
      "length (loadFailed s') = length (loadFailed ?s1)"
      "\<forall>j<length (sequence ?s1).
              loadFailed s' ! j = (loadFailed ?s1 ! j \<or> Suc i \<le> j \<and> ofLoadImage e (filenames ?s1 ! j) = None) \<and>
              sequence s' ! j = (if Suc i \<le> j then case ofLoadImage e (filenames ?s1 ! j) of
                                                 Some p \<Rightarrow> p | None \<Rightarrow> sequence ?s1 ! j
                                 else sequence ?s1 ! j)"
      by blast
    have run: "preloadAllFrames_loop e cancelSeen i s = Inr s'"
      by (subst preloadAllFrames_loop.simps) (simp only: True c1 c2 t s'(1) if_True if_False sum.case)
    have len: "length (sequence ?s1) = length (sequence s)" "length (loadFailed ?s1) = length (loadFailed s)"
       "filenames ?s1 = filenames s" "texture ?s1 = texture s" "lastFrameLoaded ?s1 = lastFrameLoaded s"
       "loaded ?s1 = loaded s" "decodeLog ?s1 = decodeLog s @ [i]"
      by (simp_all split: option.splits)
    have log: "decodeLog s' = decodeLog s @ [i..<length (sequence s)]"
      using s'(2) len True by (simp add: upt_conv_Cons)
    have lf: "length (loadFailed s) = length (sequence s)"
      using "1.prems" by (simp add: vectors_aligned_def)
    have pt: "\<forall>j<length (sequence s).
              loadFailed s' ! j = (loadFailed s ! j \<or> i \<le> j \<and> ofLoadImage e (filenames s ! j) = None) \<and>
              sequence s' ! j = (if i \<le> j then case ofLoadImage e (filenames s ! j) of
                                                 Some p \<Rightarrow> p | None \<Rightarrow> sequence s ! j
                                 else sequence s ! j)"
    proof (intro allI impI)
      fix j assume j: "j < length (sequence s)"
      from s'(9) j len have J: "loadFailed s' ! j = (loadFailed ?s1 ! j \<or> Suc i \<le> j \<and> ofLoadImage e (filenames s ! j) = None)"
        "sequence s' ! j = (if Suc i \<le> j then case ofLoadImage e (filenames s ! j) of
                                                 Some p \<Rightarrow> p | None \<Rightarrow> sequence ?s1 ! j
                                 else sequence ?s1 ! j)"
        by simp_all
      have A: "loadFailed ?s1 ! j = (loadFailed s ! j \<or> j = i \<and> ofLoadImage e (filenames s ! i) = None)"
        using j lf True by (auto simp: nth_list_update split: option.splits)
      have B: "sequence ?s1 ! j = (if j = i then case ofLoadImage e (filenames s ! i) of
                                                 Some p \<Rightarrow> p | None \<Rightarrow> sequence s ! i
                                    else sequence s ! j)"
        using j True by (auto simp: nth_list_update split: option.splits)
      show "loadFailed s' ! j = (loadFailed s ! j \<or> i \<le> j \<and> ofLoadImage e (filenames s ! j) = None) \<and>
              sequence s' ! j = (if i \<le> j then case ofLoadImage e (filenames s ! j) of
                                                 Some p \<Rightarrow> p | None \<Rightarrow> sequence s ! j
                                 else sequence s ! j)"
        unfolding J A B by (cases "j = i"; cases "i < j") (auto split: option.splits)
    qed
    show ?thesis using run log s'(3-8) len pt by simp
  qed
qed

text \<open>
  C3. A decode that fails is local. In \<^verbatim>\<open>loadFrame\<close>, at a valid index whose
  frame is neither decoded nor marked failed nor the frame last loaded, a failing
  decoder marks the frame failed and leaves the texture and \<^verbatim>\<open>lastFrameLoaded\<close>
  as they were. In \<^verbatim>\<open>preloadAllFrames\<close>, on a non-empty sequence and when no
  cancellation stops the run, every frame is handed to the decoder, in index
  order, whatever the outcome for the others; the frames that fail are marked
  failed, those that decode are stored, and the texture and
  \<^verbatim>\<open>lastFrameLoaded\<close> are as they were.
\<close>

theorem decode_failure_is_local:
  "(0 \<le> index \<and> index < int (length (sequence s)) \<and> vectors_aligned s \<and>
    lastFrameLoaded s \<noteq> index \<and> \<not> loadFailed s ! nat index \<and>
    \<not> isAllocated (sequence s ! nat index) \<and> ofLoadImage e (filenames s ! nat index) = None
    \<longrightarrow> (\<exists>s'. loadFrame e index s = Inr s' \<and> loadFailed s' ! nat index \<and>
               texture s' = texture s \<and> lastFrameLoaded s' = lastFrameLoaded s)) \<and>
   (sequence s \<noteq> [] \<and> vectors_aligned s \<and> uninterrupted cancelSeen s
    \<longrightarrow> (\<exists>s'. preloadAllFrames e cancelSeen s = Inr s' \<and>
               decodeLog s' = decodeLog s @ [0..<length (sequence s)] \<and>
               texture s' = texture s \<and> lastFrameLoaded s' = lastFrameLoaded s \<and>
               (\<forall>j<length (sequence s).
                  case ofLoadImage e (filenames s ! j) of
                    None \<Rightarrow> loadFailed s' ! j
                  | Some p \<Rightarrow> sequence s' ! j = p \<and> loadFailed s' ! j = loadFailed s ! j)))"
proof (intro conjI impI)
  assume h: "0 \<le> index \<and> index < int (length (sequence s)) \<and> vectors_aligned s \<and>
    lastFrameLoaded s \<noteq> index \<and> \<not> loadFailed s ! nat index \<and>
    \<not> isAllocated (sequence s ! nat index) \<and> ofLoadImage e (filenames s ! nat index) = None"
  then have "loadFrame e index s =
           Inr (s\<lparr>decodeLog := decodeLog s @ [nat index],
                  loadFailed := (loadFailed s)[nat index := True],
                  errorLog := errorLog s @ [ImageFailedToLoad (filenames s ! nat index)]\<rparr>)"
    by (intro loadFrame_decode_failed) simp_all
  moreover have "nat index < length (loadFailed s)"
    using h by (auto simp: vectors_aligned_def)
  ultimately show "\<exists>s'. loadFrame e index s = Inr s' \<and> loadFailed s' ! nat index \<and>
               texture s' = texture s \<and> lastFrameLoaded s' = lastFrameLoaded s"
    by simp
next
  assume h: "sequence s \<noteq> [] \<and> vectors_aligned s \<and> uninterrupted cancelSeen s"
  then have p: "preloadAllFrames e cancelSeen s = preloadAllFrames_loop e cancelSeen 0 s"
    by (simp add: preloadAllFrames_def)
  from h preloadAllFrames_loop_runs [of s cancelSeen e 0]
  obtain s' where s': "preloadAllFrames_loop e cancelSeen 0 s = Inr s'"
    "decodeLog s' = decodeLog s @ [0..<length (sequence s)]"
    "texture s' = texture s" "lastFrameLoaded s' = lastFrameLoaded s"
    "\<forall>j<length (sequence s).
       loadFailed s' ! j = (loadFailed s ! j \<or> 0 \<le> j \<and> ofLoadImage e (filenames s ! j) = None) \<and>
       sequence s' ! j = (if 0 \<le> j then case ofLoadImage e (filenames s ! j) of
                                          Some p \<Rightarrow> p | None \<Rightarrow> sequence s ! j
                          else sequence s ! j)"
    by blast
  from s'(5) have "\<forall>j<length (sequence s).
                  case ofLoadImage e (filenames s ! j) of
                    None \<Rightarrow> loadFailed s' ! j
                  | Some p \<Rightarrow> sequence s' ! j = p \<and> loadFailed s' ! j = loadFailed s ! j"
    by (auto split: option.splits)
  with p s'(1-4) show "\<exists>s'. preloadAllFrames e cancelSeen s = Inr s' \<and>
               decodeLog s' = decodeLog s @ [0..<length (sequence s)] \<and>
               texture s' = texture s \<and> lastFrameLoaded s' = lastFrameLoaded s \<and>
               (\<forall>j<length (sequence s).
                  case ofLoadImage e (filenames s ! j) of
                    None \<Rightarrow> loadFailed s' ! j
                  | Some p \<Rightarrow> sequence s' ! j = p \<and> loadFailed s' ! j = loadFailed s ! j)"
    by simp
qed

theorem decode_failure_is_local_witness:
  "(0 \<le> (1::int) \<and> 1 < int (length (sequence example_loaded)) \<and> vectors_aligned example_loaded \<and>
    lastFrameLoaded example_loaded \<noteq> 1 \<and> \<not> loadFailed example_loaded ! nat 1 \<and>
    \<not> isAllocated (sequence example_loaded ! nat 1) \<and>
    ofLoadImage example_env (filenames example_loaded ! nat 1) = None) \<and>
   (\<exists>s'. loadFrame example_env 1 example_loaded = Inr s' \<and> loadFailed s' ! nat 1 \<and>
               texture s' = texture example_loaded \<and> lastFrameLoaded s' = lastFrameLoaded example_loaded) \<and>
   (sequence example_loaded \<noteq> [] \<and> vectors_aligned example_loaded \<and>
    uninterrupted (\<lambda>i. False) example_loaded) \<and>
   (\<exists>s'. preloadAllFrames example_env (\<lambda>i. False) example_loaded = Inr s' \<and>
               decodeLog s' = decodeLog example_loaded @ [0..<length (sequence example_loaded)] \<and>
               texture s' = texture example_loaded \<and> lastFrameLoaded s' = lastFrameLoaded example_loaded \<and>
               (\<forall>j<length (sequence example_loaded).
                  case ofLoadImage example_env (filenames example_loaded ! j) of
                    None \<Rightarrow> loadFailed s' ! j
                  | Some p \<Rightarrow> sequence s' ! j = p \<and> loadFailed s' ! j = loadFailed example_loaded ! j))"
proof -
  have h1: "0 \<le> (1::int) \<and> 1 < int (length (sequence example_loaded)) \<and> vectors_aligned example_loaded \<and>
    lastFrameLoaded example_loaded \<noteq> 1 \<and> \<not> loadFailed example_loaded ! nat 1 \<and>
    \<not> isAllocated (sequence example_loaded ! nat 1) \<and>
    ofLoadImage example_env (filenames example_loaded ! nat 1) = None"
    by code_simp
  have h2: "sequence example_loaded \<noteq> [] \<and> vectors_aligned example_loaded \<and>
    uninterrupted (\<lambda>i. False) example_loaded"
    by code_simp
  note t = decode_failure_is_local [of 1 example_loaded example_env "\<lambda>i. False"]
  from t h1 h2 show ?thesis by blast
qed

section \<open>Properties of the playback addressing\<close>

text \<open>
  What the proofs need of the rounding: it keeps the sign, it never carries a
  value past a frame count up to \<open>2 ^ 24\<close>, and it leaves such a count as it is.
\<close>

lemma pow2_powr: "pow2 e = 2 powr (of_int e)"
proof (cases "0 \<le> e")
  case True
  then have "real_of_int e = real (nat e)" by simp
  then have "(2::real) powr real_of_int e = 2 ^ nat e"
    by (simp only: powr_realpow zero_less_numeral)
  then show ?thesis using True by (simp add: pow2_def)
next
  case False
  then have "real_of_int e = - real (nat (- e))" by simp
  then have "(2::real) powr real_of_int e = 1 / 2 ^ nat (- e)"
    by (simp only: powr_minus_divide powr_realpow zero_less_numeral)
  then show ?thesis using False by (simp add: pow2_def)
qed

lemma pow2_pos: "0 < pow2 e"
  by (simp add: pow2_powr)

lemma pow2_le_iff: "pow2 a \<le> pow2 b \<longleftrightarrow> a \<le> b"
  by (simp add: pow2_powr)

lemma pow2_24: "pow2 24 = 2 ^ 24"
  by (simp add: pow2_def)

lemma float_exponent_cases:
  "float_exponent x = - 126 \<or>
   (float_exponent x \<in> set (rev [- 126..127]) \<and> pow2 (float_exponent x) \<le> \<bar>x\<bar>)"
proof (cases "find (\<lambda>e. pow2 e \<le> \<bar>x\<bar>) (rev [- 126..127])")
  case None
  then have "float_exponent x = - 126"
    unfolding float_exponent_def by (simp only: option.case)
  then show ?thesis by (rule disjI1)
next
  case (Some e)
  then have e: "float_exponent x = e"
    unfolding float_exponent_def by (simp only: option.case)
  from Some obtain i where "i < length (rev [- 126..127])" "pow2 (rev [- 126..127] ! i) \<le> \<bar>x\<bar>"
    "e = rev [- 126..127] ! i"
    unfolding find_Some_iff by blast
  then have "e \<in> set (rev [- 126..127])" "pow2 e \<le> \<bar>x\<bar>"
    by (simp_all only: nth_mem)
  with e show ?thesis by blast
qed

lemma float_exponent_range: "- 126 \<le> float_exponent x \<and> float_exponent x \<le> 127"
proof -
  have "set (rev [- 126..127]) = {- 126..127::int}" by (simp only: set_rev set_upto)
  with float_exponent_cases [of x] show ?thesis by auto
qed

lemma float_exponent_le: "float_exponent x \<noteq> - 126 \<Longrightarrow> pow2 (float_exponent x) \<le> \<bar>x\<bar>"
  using float_exponent_cases [of x] by blast

lemma round_even_ge_floor: "\<lfloor>y\<rfloor> \<le> round_even y"
  by (simp add: round_even_def Let_def)

lemma round_even_le_ceiling: "round_even y \<le> \<lceil>y\<rceil>"
proof -
  have "\<lfloor>y\<rfloor> + 1 = \<lceil>y\<rceil>" if "y \<noteq> of_int \<lfloor>y\<rfloor>"
    using that by (simp add: ceiling_altdef)
  moreover have "\<lfloor>y\<rfloor> \<le> \<lceil>y\<rceil>" by linarith
  ultimately show ?thesis by (auto simp: round_even_def Let_def)
qed

lemma round_even_of_int: "round_even (of_int m) = m"
  by (simp add: round_even_def)

lemma round_even_nonneg: "0 \<le> y \<Longrightarrow> 0 \<le> round_even y"
  using round_even_ge_floor [of y] by (simp add: order_trans [of 0 "\<lfloor>y\<rfloor>"])

lemma round_even_le: "y \<le> of_int m \<Longrightarrow> round_even y \<le> m"
  using round_even_le_ceiling [of y] by (simp add: ceiling_le_iff order_trans)

lemma to_float_nonneg: "0 \<le> y \<Longrightarrow> 0 \<le> to_float y"
  using pow2_pos [of "float_exponent y - 23"]
  by (simp add: to_float_def Let_def round_even_nonneg)

text \<open>A count up to \<open>2 ^ 24\<close> is a multiple of the spacing at every magnitude below it.\<close>

lemma count_multiple_of_spacing:
  assumes "0 \<le> y" "y \<le> of_nat n" "n \<le> 2 ^ 24"
  shows "\<exists>m::int. real n = of_int m * pow2 (float_exponent y - 23)"
proof (cases "float_exponent y \<le> 23")
  case True
  define k where "k = nat (23 - float_exponent y)"
  have "pow2 (float_exponent y - 23) = 1 / 2 ^ k"
    using True by (auto simp: pow2_def k_def)
  then have "real n = of_int (int n * 2 ^ k) * pow2 (float_exponent y - 23)" by simp
  then show ?thesis by blast
next
  case False
  then have "float_exponent y \<noteq> - 126" by simp
  from float_exponent_le [OF this] assms(1) have l: "pow2 (float_exponent y) \<le> y" by simp
  have "real n \<le> 2 ^ 24" using assms(3) by (metis of_nat_le_iff of_nat_numeral of_nat_power)
  with l assms(2) have "pow2 (float_exponent y) \<le> pow2 24" by (simp add: pow2_24)
  then have "float_exponent y \<le> 24" by (simp add: pow2_le_iff)
  with False have e: "float_exponent y = 24" by simp
  with l assms(2) \<open>real n \<le> 2 ^ 24\<close> have "real n = 2 ^ 24" by (simp add: pow2_24)
  moreover have "pow2 (float_exponent y - 23) = 2" by (simp add: e pow2_def)
  ultimately have "real n = of_int (2 ^ 23) * pow2 (float_exponent y - 23)" by simp
  then show ?thesis by blast
qed

lemma to_float_le_count:
  assumes "0 \<le> y" "y \<le> of_nat n" "n \<le> 2 ^ 24"
  shows "to_float y \<le> of_nat n"
proof -
  define u where "u = pow2 (float_exponent y - 23)"
  have u: "0 < u" by (simp add: u_def pow2_pos)
  from count_multiple_of_spacing [OF assms] obtain m :: int where m: "real n = of_int m * u"
    by (auto simp: u_def)
  have "y / u \<le> of_int m" using assms(2) m u by (simp add: pos_divide_le_eq)
  then have "round_even (y / u) \<le> m" by (rule round_even_le)
  then have "of_int (round_even (y / u)) * u \<le> of_int m * u" using u by simp
  then show ?thesis by (simp add: to_float_def Let_def u_def [symmetric] m)
qed

lemma to_float_count:
  assumes "n \<le> 2 ^ 24"
  shows "to_float (of_nat n) = of_nat n"
proof -
  define u where "u = pow2 (float_exponent (real n) - 23)"
  have u: "0 < u" by (simp add: u_def pow2_pos)
  from count_multiple_of_spacing [of "real n" n] assms obtain m :: int
    where m: "real n = of_int m * u"
    by (auto simp: u_def)
  then have "real n / u = of_int m" using u by simp
  then have "round_even (real n / u) = m" by (simp add: round_even_of_int)
  then show ?thesis by (simp add: to_float_def Let_def u_def [symmetric] m [symmetric])
qed

lemma to_size_t_id: "0 \<le> x \<Longrightarrow> x < 2 ^ 31 \<Longrightarrow> to_size_t x = x"
  by (simp add: to_size_t_def)

lemma to_int32_id: "0 \<le> x \<Longrightarrow> x < 2 ^ 31 \<Longrightarrow> to_int32 x = x"
  by (simp add: to_int32_def)

lemma min_lt: "(if a < b then a else b) = min a (b::int)"
  by (simp add: min_def)

lemma wrap_percent_range: "0 \<le> p \<and> p \<le> 1 \<or> 0 \<le> wrap_percent p \<and> wrap_percent p \<le> 1"
proof (cases "p < 0 \<or> 1 < p")
  case False
  then show ?thesis by auto
next
  case True
  have y: "0 \<le> p - of_int \<lfloor>p\<rfloor>" "p - of_int \<lfloor>p\<rfloor> \<le> real 1" by simp_all linarith
  have "0 \<le> to_float (p - of_int \<lfloor>p\<rfloor>)" using y(1) by (rule to_float_nonneg)
  moreover have "to_float (p - of_int \<lfloor>p\<rfloor>) \<le> real 1"
    using y by (rule to_float_le_count) simp
  ultimately show ?thesis using True by (simp add: wrap_percent_def)
qed

lemma index_of_unit_fraction:
  assumes n: "1 \<le> length (sequence s)" "length (sequence s) \<le> 2 ^ 24"
    and w: "0 \<le> w" "w \<le> 1"
  shows "int_cast (to_float (w * to_float (of_nat (length (sequence s)))))
           = Inr \<lfloor>to_float (w * of_nat (length (sequence s)))\<rfloor> \<and>
         0 \<le> \<lfloor>to_float (w * of_nat (length (sequence s)))\<rfloor> \<and>
         \<lfloor>to_float (w * of_nat (length (sequence s)))\<rfloor> \<le> int (length (sequence s))"
proof -
  define n where "n = length (sequence s)"
  have nb: "1 \<le> n" "n \<le> 2 ^ 24" using n by (simp_all add: n_def)
  have c: "to_float (real n) = real n" using nb(2) by (rule to_float_count)
  have y0: "0 \<le> w * real n" using w by simp
  have "w * real n \<le> 1 * real n" using w by (intro mult_right_mono) simp_all
  then have y1: "w * real n \<le> real n" by simp
  have t0: "0 \<le> to_float (w * real n)" using y0 by (rule to_float_nonneg)
  have t1: "to_float (w * real n) \<le> real n" using y0 y1 nb(2) by (rule to_float_le_count)
  have f0: "0 \<le> \<lfloor>to_float (w * real n)\<rfloor>" using t0 by simp
  have f1: "\<lfloor>to_float (w * real n)\<rfloor> \<le> int n" using t1 by (simp add: floor_le_iff)
  have i: "int n \<le> 16777216" using nb(2) by simp
  have f2: "\<lfloor>to_float (w * real n)\<rfloor> \<le> INT_MAX"
    using f1 i unfolding INT_MAX_def by linarith
  have f3: "INT_MIN \<le> \<lfloor>to_float (w * real n)\<rfloor>"
    using f0 unfolding INT_MIN_def by linarith
  have "int_cast (to_float (w * real n)) = Inr \<lfloor>to_float (w * real n)\<rfloor>"
    using t0 f2 f3 by (simp only: int_cast_def int_result_def if_True simp_thms)
  with f0 f1 c show ?thesis by (simp add: n_def)
qed

lemma example_ten_run:
  "loadSequence T_ofPixels example_env ''img'' ''png'' 1 10 0 example_new = Inr (True, example_ten)"
  by code_simp

text \<open>
  C4, as stated, fails. The product is rounded to \<^verbatim>\<open>float\<close> before the cast:
  at \<^verbatim>\<open>0.7f\<close>, the \<^verbatim>\<open>float\<close> nearest to \<open>7 / 10\<close>, and ten frames the
  function returns 7, while the floor of the product is 6. And the wrap does not
  end below 1: at \<open>- 1 / 2 ^ 30\<close> the rounded difference is 1.
\<close>

theorem getFrameIndexAtPercent_float_counterexample:
  "loadSequence T_ofPixels example_env ''img'' ''png'' 1 10 0 example_new = Inr (True, example_ten) \<and>
   length (sequence example_ten) = 10 \<and>
   to_float (7 / 10) = 11744051 / 16777216 \<and>
   getFrameIndexAtPercent example_ten (11744051 / 16777216) = Inr 7 \<and>
   \<lfloor>(11744051 / 16777216 :: real) * 10\<rfloor> = 6 \<and>
   wrap_percent (- 1 / 2 ^ 30) = 1"
  by code_simp

text \<open>
  C4, amended. From 1 to \<open>2 ^ 24\<close> frames, \<^verbatim>\<open>getFrameIndexAtPercent\<close> leaves
  \<open>p\<close> as it is inside \<open>[0, 1]\<close> and replaces it otherwise by \<open>p\<close> minus its
  floor rounded to \<^verbatim>\<open>float\<close>, a value of \<open>[0, 1]\<close>; it returns the floor of the
  product with the frame count, the product rounded to \<^verbatim>\<open>float\<close>, clamped to
  the last index; the result is a valid index. At 0 it returns 0 and at 1 the
  last index.
\<close>

theorem getFrameIndexAtPercent_rounds_floors_clamps:
  assumes n: "1 \<le> length (sequence s)" "length (sequence s) \<le> 2 ^ 24"
  shows "(\<exists>i. getFrameIndexAtPercent s p = Inr i \<and> 0 \<le> i \<and> i < int (length (sequence s)) \<and>
              i = min \<lfloor>to_float (wrap_percent p * of_nat (length (sequence s)))\<rfloor>
                      (int (length (sequence s)) - 1)) \<and>
         (0 \<le> p \<and> p \<le> 1 \<longrightarrow> wrap_percent p = p) \<and>
         (p < 0 \<or> 1 < p \<longrightarrow> wrap_percent p = to_float (p - of_int \<lfloor>p\<rfloor>) \<and>
                               0 \<le> wrap_percent p \<and> wrap_percent p \<le> 1) \<and>
         getFrameIndexAtPercent s 0 = Inr 0 \<and>
         getFrameIndexAtPercent s 1 = Inr (int (length (sequence s)) - 1)"
proof -
  define n where "n = length (sequence s)"
  have nb: "1 \<le> n" "int n \<le> 16777216" using n by (simp_all add: n_def)
  have gen: "\<exists>i. getFrameIndexAtPercent s q = Inr i \<and> 0 \<le> i \<and> i < int n \<and>
              i = min \<lfloor>to_float (wrap_percent q * of_nat n)\<rfloor> (int n - 1)" for q
  proof -
    define w where "w = wrap_percent q"
    have w: "0 \<le> w" "w \<le> 1" using wrap_percent_range [of q]
      by (auto simp: w_def wrap_percent_def)
    define f where "f = \<lfloor>to_float (w * of_nat n)\<rfloor>"
    from index_of_unit_fraction [OF n w]
    have c: "int_cast (to_float (w * to_float (of_nat n))) = Inr f" and f: "0 \<le> f" "f \<le> int n"
      by (simp_all add: n_def f_def)
    have p31: "(2::int) ^ 31 = 2147483648" by simp
    have lt: "f < 2 ^ 31" using f nb unfolding p31 by linarith
    have x: "to_size_t f = f" by (rule to_size_t_id [OF f(1) lt])
    have y: "to_size_t (int n - 1) = int n - 1"
      using nb unfolding p31 by (intro to_size_t_id; (unfold p31)?) linarith+
    have "0 \<le> min f (int n - 1)" "min f (int n - 1) < 2 ^ 31"
      using f lt nb unfolding p31 by linarith+
    then have r: "to_int32 (min f (int n - 1)) = min f (int n - 1)" by (rule to_int32_id)
    have "getFrameIndexAtPercent s q = Inr (min f (int n - 1))"
      unfolding getFrameIndexAtPercent_def w_def [symmetric] n_def [symmetric] c
      by (simp only: sum.case x y min_lt r)
    moreover have "0 \<le> min f (int n - 1)" "min f (int n - 1) < int n" using f nb by linarith+
    ultimately show ?thesis by (simp add: f_def w_def)
  qed
  have w0: "wrap_percent 0 = 0" and w1: "wrap_percent 1 = 1" by (simp_all add: wrap_percent_def)
  have t0: "to_float (0 * real n) = 0" using to_float_count [of 0] by simp
  have t1: "to_float (1 * real n) = real n" using to_float_count [of n] nb by simp
  have z: "getFrameIndexAtPercent s 0 = Inr 0"
    using gen [of 0] nb unfolding w0 t0 by auto
  have o: "getFrameIndexAtPercent s 1 = Inr (int n - 1)"
    using gen [of 1] nb unfolding w1 t1 by auto
  have a: "0 \<le> p \<and> p \<le> 1 \<longrightarrow> wrap_percent p = p" by (auto simp: wrap_percent_def)
  have b: "p < 0 \<or> 1 < p \<longrightarrow> wrap_percent p = to_float (p - of_int \<lfloor>p\<rfloor>) \<and>
                               0 \<le> wrap_percent p \<and> wrap_percent p \<le> 1"
    using wrap_percent_range [of p] by (auto simp: wrap_percent_def)
  from gen [of p] z o a b show ?thesis unfolding n_def by blast
qed

theorem getFrameIndexAtPercent_rounds_floors_clamps_witness:
  "1 \<le> length (sequence example_ten) \<and> length (sequence example_ten) \<le> 2 ^ 24 \<and>
   (0 \<le> (11744051 / 16777216 :: real) \<and> (11744051 / 16777216 :: real) \<le> 1) \<and>
   ((- 1 / 4 :: real) < 0 \<or> 1 < (- 1 / 4 :: real)) \<and>
   getFrameIndexAtPercent example_ten (11744051 / 16777216) = Inr 7 \<and>
   wrap_percent (11744051 / 16777216) = 11744051 / 16777216 \<and>
   wrap_percent (- 1 / 4) = 3 / 4 \<and>
   getFrameIndexAtPercent example_ten (- 1 / 4) = Inr 7 \<and>
   getFrameIndexAtPercent example_ten 0 = Inr 0 \<and>
   getFrameIndexAtPercent example_ten 1 = Inr 9"
proof -
  have len: "length (sequence example_ten) = 10" by code_simp
  have h: "1 \<le> length (sequence example_ten)" "length (sequence example_ten) \<le> 2 ^ 24"
    by (simp_all add: len)
  have r: "(0 \<le> (11744051 / 16777216 :: real) \<and> (11744051 / 16777216 :: real) \<le> 1)"
    "((- 1 / 4 :: real) < 0 \<or> 1 < (- 1 / 4 :: real))"
    by simp_all
  have e: "min \<lfloor>to_float (wrap_percent (11744051 / 16777216) * of_nat 10)\<rfloor> (int 10 - 1) = 7"
    "min \<lfloor>to_float (wrap_percent (- 1 / 4) * of_nat 10)\<rfloor> (int 10 - 1) = 7"
    "to_float (- 1 / 4 - of_int \<lfloor>- 1 / 4 :: real\<rfloor>) = 3 / 4"
    by code_simp+
  note t1 = getFrameIndexAtPercent_rounds_floors_clamps [OF h, of "11744051 / 16777216", unfolded len]
  note t2 = getFrameIndexAtPercent_rounds_floors_clamps [OF h, of "- 1 / 4", unfolded len]
  from t1 r(1) e(1) have a: "getFrameIndexAtPercent example_ten (11744051 / 16777216) = Inr 7"
    "wrap_percent (11744051 / 16777216) = 11744051 / 16777216"
    "getFrameIndexAtPercent example_ten 0 = Inr 0"
    "getFrameIndexAtPercent example_ten 1 = Inr 9"
    by auto
  from t2 r(2) e(2,3) have b: "wrap_percent (- 1 / 4) = 3 / 4"
    "getFrameIndexAtPercent example_ten (- 1 / 4) = Inr 7"
    by auto
  from h r a b show ?thesis by blast
qed

text \<open>
  Above \<open>2 ^ 24\<close> the frame count is itself rounded when it is converted to
  \<^verbatim>\<open>float\<close>: with \<open>2 ^ 26 + 3\<close> frames the index at 1 is three short of the
  last.
\<close>

lemma to_float_large: "to_float 67108867 = 67108864" "to_float 67108864 = 67108864"
  by code_simp+

lemma getFrameIndexAtPercent_large_count:
  assumes "length (sequence s) = 67108867"
  shows "getFrameIndexAtPercent s 1 = Inr 67108864"
proof -
  have w: "wrap_percent 1 = 1" by (simp add: wrap_percent_def)
  have c: "int_cast 67108864 = Inr 67108864"
    by (simp add: int_cast_def int_result_def INT_MIN_def INT_MAX_def)
  show ?thesis
    unfolding getFrameIndexAtPercent_def assms w
    by (simp add: to_float_large c to_size_t_def to_int32_def)
qed

text \<open>
  C7. \<^verbatim>\<open>getFilePath\<close> tests \<^verbatim>\<open>index > 0\<close>, so index 0 of a loaded sequence
  is reported as outside the range and the empty string is returned, although
  \<^verbatim>\<open>filenames[0]\<close> exists.
\<close>

theorem getFilePath_rejects_index_zero:
  "0 < length (filenames example_loaded) \<and> filenames example_loaded ! 0 = ''img8.png'' \<and>
   getFilePath 0 example_loaded = ([], example_loaded\<lparr>errorLog := [FilenameOutOfRange]\<rparr>)"
  by code_simp

section \<open>Properties of the folder loader\<close>

text \<open>
  \<^verbatim>\<open>preloadAllFilenames\<close> compares \<^verbatim>\<open>typeid(*this).name()\<close>, the name of the
  sequence class, with the names of the three buffer types. No branch of the
  chain matches, so the first round of the loop returns false.
\<close>

lemma push_back_pixels_this: "push_back_pixels (typeid_this T) s = None"
  by (simp add: push_back_pixels_def typeid_this_def typeid_T_def)

lemma push_back_pixels_T:
  "push_back_pixels (typeid_T T) s = Some (s\<lparr>sequence := sequence s @ [ofPixels_new]\<rparr>)"
  by (cases T) (simp_all add: push_back_pixels_def typeid_T_def)

lemma preloadAllFilenames_loop_fails:
  "preloadAllFilenames_loop T files numFiles i s =
     (if i < numFiles
      then (False, ofLogError UnrecognisedType (s\<lparr>filenames := filenames s @ [files ! i]\<rparr>))
      else (True, s))"
  by (subst preloadAllFilenames_loop.simps) (simp add: push_back_pixels_this)

lemma preloadAllFilenames_never_succeeds: "\<not> fst (preloadAllFilenames T e s)"
  by (simp add: preloadAllFilenames_def preloadAllFilenames_loop_fails Let_def)



text \<open>
  C1. The folder \<^verbatim>\<open>frames\<close> exists and lists two files, yet
  \<^verbatim>\<open>loadSequence("frames")\<close> on a new \<^verbatim>\<open>ofxImageSequence<ofPixels>\<close> returns
  false: it has stored the first file name, pushed no frame, reported an
  unrecognised type, and left the sequence not loaded.
\<close>

theorem loadSequence_folder_returns_false:
  "fileExists example_env ''frames'' \<and>
   listDir example_env [] ''frames'' = [''frames/a.png'', ''frames/b.png''] \<and>
   loadSequence_folder T_ofPixels example_env ''frames'' example_new
     = Inr (False, example_new\<lparr>filenames := [''frames/a.png''], folderToLoad := ''frames'',
                               errorLog := [UnrecognisedType]\<rparr>)"
  by code_simp

section \<open>Properties of the explicit range loader\<close>

lemma example_padded_run:
  "loadSequence T_ofPixels example_env ''img'' ''png'' 8 10 3 example_new
     = Inr (True, example_padded)"
  by code_simp

text \<open>
  C5. The prefix is copied into the format string of \<^verbatim>\<open>sprintf\<close>. With the
  prefix \<^verbatim>\<open>img%\<close> the format is \<^verbatim>\<open>img%%d.png\<close>, in which \<^verbatim>\<open>%%\<close> is a
  literal percent sign and no conversion is left: the three paths for 8, 9 and 10
  are all \<^verbatim>\<open>img%d.png\<close>.
\<close>

theorem loadSequence_percent_sign_in_prefix:
  "loadSequence T_ofPixels example_env ''img%'' ''png'' 8 10 0 example_new
     = Inr (True, example_new\<lparr>sequence := [ofPixels_new, ofPixels_new, ofPixels_new],
                              filenames := [''img%d.png'', ''img%d.png'', ''img%d.png''],
                              loadFailed := [True, False, False], loaded := True,
                              errorLog := [ImageFailedToLoad ''img%d.png''], decodeLog := [0]\<rparr>)"
  by code_simp

text \<open>
  Where the prefix and the file type contain neither a percent sign nor a zero
  byte, \<^verbatim>\<open>numDigits\<close> is not negative and the name fits the buffer, the name
  written for \<open>i\<close> is the prefix, the decimal form of \<open>i\<close> padded with zeros to
  \<^verbatim>\<open>numDigits\<close> characters, a dot, and the file type.
\<close>

lemma digit_cases: "d < 10 \<Longrightarrow> d = 0 \<or> d = 1 \<or> d = 2 \<or> d = 3 \<or> d = 4 \<or> d = 5 \<or> d = 6 \<or> d = 7 \<or> d = 8 \<or> d = (9::nat)"
  by arith

lemma digit_val_digit_char: "d < 10 \<Longrightarrow> digit_val (digit_char d) = Some d"
  by (drule digit_cases) (auto simp: digit_val_def digit_char_def)

lemma digit_char_plain:
  "d < 10 \<Longrightarrow> digit_char d \<noteq> CHR ''%'' \<and> digit_char d \<noteq> CHR ''-'' \<and> digit_char d \<noteq> CHR ''d''
     \<and> digit_char d \<noteq> CHR 0x00 \<and> (0 < d \<longrightarrow> digit_char d \<noteq> CHR ''0'')"
  by (drule digit_cases) (auto simp: digit_char_def)

lemma show_nat_plain: "CHR ''%'' \<notin> set (show_nat n) \<and> CHR 0x00 \<notin> set (show_nat n)"
proof (induction n rule: show_nat.induct)
  case (1 n)
  show ?case
  proof (cases "n < 10")
    case True
    then show ?thesis using digit_char_plain [of n] by (subst show_nat.simps, subst show_nat.simps) auto
  next
    case False
    then show ?thesis
      using "1.IH" digit_char_plain [of "n mod 10"]
      by (subst show_nat.simps, subst show_nat.simps) auto
  qed
qed

lemma printf_width_digits:
  "0 < n \<Longrightarrow> printf (Flags z l seen) (show_nat n @ rest) i u = printf (Width z l n) rest i u"
proof (induction n arbitrary: rest rule: show_nat.induct)
  case (1 n)
  show ?case
  proof (cases "n < 10")
    case True
    with "1.prems" show ?thesis
      using digit_char_plain [of n] digit_val_digit_char [of n]
      by (subst show_nat.simps) simp
  next
    case False
    then have d: "0 < n div 10" by simp
    have m: "n mod 10 < 10" by simp
    have "printf (Flags z l seen) (show_nat n @ rest) i u
            = printf (Flags z l seen) (show_nat (n div 10) @ digit_char (n mod 10) # rest) i u"
      using False by (subst show_nat.simps) simp
    also have "\<dots> = printf (Width z l (n div 10)) (digit_char (n mod 10) # rest) i u"
      using "1.IH" [OF False d] .
    also have "\<dots> = printf (Width z l (10 * (n div 10) + n mod 10)) rest i u"
      using digit_char_plain [OF m] digit_val_digit_char [OF m] by simp
    finally show ?thesis by simp
  qed
qed

lemma emit_Inr: "emit pre (Inr out) = Inr (pre @ out)"
  by (simp add: emit_def)

lemma emit_emit: "emit a (emit b r) = emit (a @ b) r"
  by (cases r) (simp_all add: emit_def)

lemma printf_literal:
  "CHR ''%'' \<notin> set pre \<Longrightarrow> printf Literal (pre @ rest) i u = emit pre (printf Literal rest i u)"
proof (induction pre)
  case Nil
  show ?case by (cases "printf Literal rest i u") (simp_all add: emit_def)
next
  case (Cons c pre)
  then show ?case by (auto simp: emit_emit)
qed

lemma printf_image_format:
  assumes "CHR ''%'' \<notin> set prefix" "CHR ''%'' \<notin> set filetype" "0 \<le> numDigits"
  shows "printf Literal (image_format prefix filetype numDigits) i False
           = Inr (prefix @ conv_d True False (nat numDigits) i @ ''.'' @ filetype)"
proof -
  have tail: "printf Literal (''.'' @ filetype) i True = Inr (''.'' @ filetype)"
    using printf_literal [of "''.'' @ filetype" "[]" i True] assms(2) by (simp add: emit_Inr)
  show ?thesis
  proof (cases "numDigits = 0")
    case True
    have "conv_d False False 0 i = conv_d True False 0 i" by (simp add: conv_d_def Let_def)
    then show ?thesis
      using True assms(1) tail
      by (simp add: image_format_def printf_literal emit_Inr emit_emit)
  next
    case False
    then have p: "0 < nat numDigits" and s: "show_int numDigits = show_nat (nat numDigits)"
      using assms(3) by (simp_all add: show_int_def)
    have "printf Literal (''%0'' @ show_nat (nat numDigits) @ ''d.'' @ filetype) i False
            = printf (Flags True False True) (show_nat (nat numDigits) @ ''d.'' @ filetype) i False"
      by simp
    also have "\<dots> = printf (Width True False (nat numDigits)) (''d.'' @ filetype) i False"
      by (rule printf_width_digits [OF p])
    also have "\<dots> = Inr (conv_d True False (nat numDigits) i @ ''.'' @ filetype)"
      using tail by (simp add: emit_Inr)
    finally show ?thesis
      using False assms(1) by (simp add: image_format_def s printf_literal emit_Inr)
  qed
qed

lemma c_str_id: "CHR 0x00 \<notin> set str \<Longrightarrow> c_str str = str"
  by (auto simp: c_str_def)

lemma show_int_plain: "CHR 0x00 \<notin> set (show_int n)"
  using show_nat_plain by (simp add: show_int_def)

lemma sprintf_image_format:
  assumes "CHR ''%'' \<notin> set prefix" "CHR ''%'' \<notin> set filetype" "0 \<le> numDigits"
    and "CHR 0x00 \<notin> set prefix" "CHR 0x00 \<notin> set filetype"
    and "length (prefix @ conv_d True False (nat numDigits) i @ ''.'' @ filetype) < 1024"
  shows "sprintf (image_format prefix filetype numDigits) i
           = Inr (prefix @ conv_d True False (nat numDigits) i @ ''.'' @ filetype)"
proof -
  have "CHR 0x00 \<notin> set (image_format prefix filetype numDigits)"
    using assms(4,5) show_int_plain [of numDigits] by (simp add: image_format_def)
  then have "c_str (image_format prefix filetype numDigits) = image_format prefix filetype numDigits"
    by (rule c_str_id)
  then show ?thesis
    using printf_image_format [OF assms(1-3), of i] assms(6) by (simp add: sprintf_def)
qed

lemma conv_d_zero_padded:
  "0 \<le> i \<Longrightarrow>
     conv_d True False w i = replicate (w - length (show_nat (nat i))) CHR ''0'' @ show_nat (nat i)"
  by (simp add: conv_d_def Let_def)

lemma image_names_percent_free:
  assumes "CHR ''%'' \<notin> set prefix" "CHR ''%'' \<notin> set filetype" "0 \<le> numDigits"
    and "CHR 0x00 \<notin> set prefix" "CHR 0x00 \<notin> set filetype"
    and "\<forall>k\<in>{startDigit..endDigit}.
           length (prefix @ conv_d True False (nat numDigits) k @ ''.'' @ filetype) < 1024"
  shows "map (\<lambda>k. projr (sprintf (image_format prefix filetype numDigits) k)) [startDigit..endDigit]
           = map (\<lambda>k. prefix @ conv_d True False (nat numDigits) k @ ''.'' @ filetype)
               [startDigit..endDigit]"
    and "\<forall>k\<in>{startDigit..endDigit}. \<not> isl (sprintf (image_format prefix filetype numDigits) k)"
  using assms by (simp_all add: sprintf_image_format)

lemma int_result_Inr: "INT_MIN \<le> x \<Longrightarrow> x \<le> INT_MAX \<Longrightarrow> int_result x = Inr x"
  by (simp add: int_result_def)

lemma loadSequence_loop_runs:
  assumes "\<forall>k\<in>{i..endDigit}. \<not> isl (sprintf format k)" "endDigit < INT_MAX" "INT_MIN \<le> i"
  shows "loadSequence_loop T format i endDigit s =
           Inr (True, s\<lparr>filenames := filenames s @ map (\<lambda>k. projr (sprintf format k)) [i..endDigit],
                        sequence := sequence s @ replicate (nat (endDigit - i + 1)) ofPixels_new,
                        loadFailed := loadFailed s @ replicate (nat (endDigit - i + 1)) False\<rparr>)"
  using assms
proof (induction T format i endDigit s rule: loadSequence_loop.induct)
  case (1 T format i endDigit s)
  show ?case
  proof (cases "i \<le> endDigit")
    case False
    then show ?thesis by (subst loadSequence_loop.simps) simp
  next
    case True
    from "1.prems"(1) True have "\<not> isl (sprintf format i)" by simp
    then obtain name where name: "sprintf format i = Inr name"
      by (cases "sprintf format i") simp_all
    let ?s1 = "s\<lparr>filenames := filenames s @ [name]\<rparr>"
    let ?s2 = "?s1\<lparr>sequence := sequence ?s1 @ [ofPixels_new]\<rparr>"
    have pb: "push_back_pixels (typeid_T T) ?s1 = Some ?s2" by (rule push_back_pixels_T)
    have ir: "int_result (i + 1) = Inr (i + 1)"
      using "1.prems" True by (intro int_result_Inr) linarith+
    have p1: "\<forall>k\<in>{i + 1..endDigit}. \<not> isl (sprintf format k)" using "1.prems"(1) by simp
    have p3: "INT_MIN \<le> i + 1" using "1.prems"(3) by simp
    note ih = "1.IH" [OF True name pb ir p1 "1.prems"(2) p3]
    have u: "[i..endDigit] = i # [i + 1..endDigit]" using True by (simp add: upto_rec1)
    have n: "nat (endDigit - i + 1) = Suc (nat (endDigit - (i + 1) + 1))" using True by simp
    show ?thesis
      apply (subst loadSequence_loop.simps)
      apply (simp only: True if_True name sum.case pb option.case ir ih)
      apply (simp add: u n name replicate_append_same)
      done
  qed
qed


text \<open>
  At the upper end of \<^verbatim>\<open>int\<close> the loop counter cannot pass \<^verbatim>\<open>endDigit\<close>:
  after the round for \<open>2147483647\<close> the increment \<^verbatim>\<open>i++\<close> overflows.
\<close>

lemma show_nat_INT_MAX: "show_nat 2147483647 = ''2147483647''"
  by (simp add: show_nat.simps digit_char_def)

lemma sprintf_INT_MAX:
  "sprintf (image_format ''img'' ''png'' 0) 2147483647 = Inr ''img2147483647.png''"
  by (simp add: sprintf_def image_format_def c_str_def emit_def conv_d_def Let_def show_nat_INT_MAX)

lemma loadSequence_loop_at_INT_MAX:
  "loadSequence_loop T (image_format ''img'' ''png'' 0) 2147483647 2147483647 s
     = Inl IntegerOverflow"
  by (subst loadSequence_loop.simps)
     (simp add: sprintf_INT_MAX push_back_pixels_T int_result_def INT_MAX_def)

lemma loadSequence_at_INT_MAX:
  "loadSequence T e ''img'' ''png'' 2147483647 2147483647 0 s = Inl IntegerOverflow"
  by (simp add: loadSequence_def Let_def int_result_def INT_MIN_def INT_MAX_def
                loadSequence_loop_at_INT_MAX)

text \<open>
  C9, as stated, fails: \<^verbatim>\<open>startDigit <= endDigit\<close> is not enough for the call
  to return true. With both bounds at \<open>2147483647\<close> the increment of the loop
  counter overflows after the only round; from \<open>-1\<close> to \<open>2147483647\<close> the
  count \<^verbatim>\<open>endDigit - startDigit + 1\<close> overflows; and with the prefix
  \<^verbatim>\<open>%s\<close> the format is \<^verbatim>\<open>%s%d.png\<close>, whose first conversion reads the
  \<^verbatim>\<open>int\<close> as a string. Each of the three calls is undefined.
\<close>

theorem loadSequence_range_undefined_counterexample:
  "(2147483647::int) \<le> 2147483647 \<and>
   loadSequence T_ofPixels example_env ''img'' ''png'' 2147483647 2147483647 0 example_new
     = Inl IntegerOverflow \<and>
   (- 1::int) \<le> 2147483647 \<and>
   loadSequence T_ofPixels example_env ''img'' ''png'' (- 1) 2147483647 0 example_new
     = Inl IntegerOverflow \<and>
   (8::int) \<le> 10 \<and>
   loadSequence T_ofPixels example_env ''%s'' ''png'' 8 10 0 example_new = Inl InvalidFormat"
proof -
  have a: "loadSequence T_ofPixels example_env ''img'' ''png'' (- 1) 2147483647 0 example_new
     = Inl IntegerOverflow"
    by code_simp
  have b: "loadSequence T_ofPixels example_env ''%s'' ''png'' 8 10 0 example_new
     = Inl InvalidFormat"
    by code_simp
  from loadSequence_at_INT_MAX [of T_ofPixels example_env example_new] a b show ?thesis by simp
qed

text \<open>
  C9, amended. Let \<^verbatim>\<open>startDigit <= endDigit\<close> with \<^verbatim>\<open>endDigit\<close> below
  \<open>2147483647\<close> and \<^verbatim>\<open>endDigit - startDigit\<close> below \<open>2147483647\<close>, and let
  \<^verbatim>\<open>sprintf\<close> as formalised above write a name for every index of the range:
  the format built from the prefix, \<^verbatim>\<open>numDigits\<close> and the file type holds
  only literal text, \<^verbatim>\<open>%%\<close> and one \<^verbatim>\<open>%d\<close> with the flags \<^verbatim>\<open>0\<close> and
  \<^verbatim>\<open>-\<close> and a width, and each name is shorter than 1024 characters. Then
  \<^verbatim>\<open>loadSequence\<close> on the range returns true and leaves the sequence loaded
  with one frame per index, whatever the decoder does. If the decode of the
  first path fails, only frame 0 is marked failed, no buffer is decoded, width
  and height are 0, \<^verbatim>\<open>lastFrameLoaded\<close> is \<open>-1\<close> and the texture is the one the
  object had. By \<open>image_names_percent_free\<close> the condition on \<^verbatim>\<open>sprintf\<close> holds
  whenever the prefix and the file type contain no percent sign and no zero
  byte, \<^verbatim>\<open>numDigits\<close> is not negative and the names fit the buffer.
\<close>

theorem loadSequence_range_loads_without_files:
  assumes r: "INT_MIN \<le> startDigit" "startDigit \<le> endDigit" "endDigit < INT_MAX"
      "endDigit - startDigit < INT_MAX"
    and f: "\<forall>k\<in>{startDigit..endDigit}.
              \<not> isl (sprintf (image_format prefix filetype numDigits) k)"
  shows "\<exists>s'. loadSequence T e prefix filetype startDigit endDigit numDigits s0 = Inr (True, s') \<and>
           loaded s' \<and>
           filenames s' = map (\<lambda>k. projr (sprintf (image_format prefix filetype numDigits) k))
                            [startDigit..endDigit] \<and>
           length (sequence s') = nat (endDigit - startDigit + 1) \<and>
           (ofLoadImage e (projr (sprintf (image_format prefix filetype numDigits) startDigit)) = None
            \<longrightarrow> loadFailed s' = True # replicate (nat (endDigit - startDigit)) False \<and>
                sequence s' = replicate (nat (endDigit - startDigit + 1)) ofPixels_new \<and>
                width s' = 0 \<and> height s' = 0 \<and>
                lastFrameLoaded s' = - 1 \<and> texture s' = texture s0)"
proof -
  define fmt where "fmt = image_format prefix filetype numDigits"
  define n where "n = nat (endDigit - startDigit)"
  define names where "names = map (\<lambda>k. projr (sprintf fmt k)) [startDigit..endDigit]"
  let ?u = "unloadSequence s0"
  let ?s1 = "?u\<lparr>filenames := names, sequence := replicate (Suc n) ofPixels_new,
                loadFailed := replicate (Suc n) False\<rparr>"
  let ?s2 = "?s1\<lparr>loaded := True, lastFrameLoaded := - 1\<rparr>"
  have sn: "nat (endDigit - startDigit + 1) = Suc n" using r by (simp add: n_def)
  have d1: "int_result (endDigit - startDigit) = Inr (endDigit - startDigit)"
    using r by (intro int_result_Inr) (simp_all add: INT_MIN_def)
  have d2: "int_result (endDigit - startDigit + 1) = Inr (endDigit - startDigit + 1)"
    using r by (intro int_result_Inr) (simp_all add: INT_MIN_def)
  have pos: "\<not> endDigit - startDigit + 1 \<le> 0" using r by simp
  have loop: "loadSequence_loop T fmt startDigit endDigit ?u = Inr (True, ?s1)"
    using loadSequence_loop_runs [of startDigit endDigit fmt T ?u] f r
    by (simp add: fmt_def names_def sn unloadSequence_def)
  have n0: "names ! 0 = projr (sprintf fmt startDigit)"
    using r by (simp add: names_def upto_rec1)
  have al: "vectors_aligned ?s2"
    using sn by (simp add: vectors_aligned_def names_def)
  have v: "(0::int) \<le> 0" "0 < int (length (sequence ?s2))" by simp_all
  have l: "lastFrameLoaded ?s2 \<noteq> 0" by simp
  have nf: "\<not> loadFailed ?s2 ! nat 0" by simp
  have na: "\<not> isAllocated (sequence ?s2 ! nat 0)" by (simp add: ofPixels_new_def)
  show ?thesis
  proof (cases "ofLoadImage e (projr (sprintf fmt startDigit))")
    case None
    then have "ofLoadImage e (filenames ?s2 ! nat 0) = None" using n0 by simp
    note lf = loadFrame_decode_failed [OF v al l nf na this]
    show ?thesis
      unfolding loadSequence_def Let_def fmt_def [symmetric]
      apply (simp only: d1 d2 pos sum.case if_False loop prod.case not_True_eq_False lf)
      apply (simp add: vector_at_def names_def sn None ofPixels_new_def unloadSequence_def n_def [symmetric])
      done
  next
    case (Some p)
    then have "ofLoadImage e (filenames ?s2 ! nat 0) = Some p" using n0 by simp
    note lf = loadFrame_decoded [OF v al l nf na this]
    show ?thesis
      unfolding loadSequence_def Let_def fmt_def [symmetric]
      apply (simp only: d1 d2 pos sum.case if_False loop prod.case not_True_eq_False lf)
      apply (simp add: vector_at_def names_def sn Some)
      done
  qed
qed
theorem loadSequence_range_loads_without_files_witness:
  "INT_MIN \<le> 8 \<and> (8::int) \<le> 10 \<and> 10 < INT_MAX \<and> (10::int) - 8 < INT_MAX \<and>
   \<not> isl (sprintf (image_format ''img'' ''png'' 3) 8) \<and>
   \<not> isl (sprintf (image_format ''img'' ''png'' 3) 9) \<and>
   \<not> isl (sprintf (image_format ''img'' ''png'' 3) 10) \<and>
   ofLoadImage example_env (projr (sprintf (image_format ''img'' ''png'' 3) 8)) = None \<and>
   (\<exists>s'. loadSequence T_ofPixels example_env ''img'' ''png'' 8 10 3 example_new = Inr (True, s') \<and>
         loaded s' \<and> loadFailed s' = [True, False, False] \<and> width s' = 0 \<and> height s' = 0)"
proof -
  have r: "INT_MIN \<le> 8" "(8::int) \<le> 10" "10 < INT_MAX" "(10::int) - 8 < INT_MAX"
    by (simp_all add: INT_MIN_def INT_MAX_def)
  have i: "{8..10::int} = {8, 9, 10}" by auto
  have g: "\<not> isl (sprintf (image_format ''img'' ''png'' 3) 8)"
    "\<not> isl (sprintf (image_format ''img'' ''png'' 3) 9)"
    "\<not> isl (sprintf (image_format ''img'' ''png'' 3) 10)"
    by code_simp+
  have f: "\<forall>k\<in>{8..10}. \<not> isl (sprintf (image_format ''img'' ''png'' 3) k)"
    unfolding i using g by simp
  have d: "ofLoadImage example_env (projr (sprintf (image_format ''img'' ''png'' 3) 8)) = None"
    by code_simp
  have n: "True # replicate (nat (10 - 8)) False = [True, False, False]"
    by code_simp
  from loadSequence_range_loads_without_files [OF r f, of T_ofPixels example_env example_new] d
  obtain s' where "loadSequence T_ofPixels example_env ''img'' ''png'' 8 10 3 example_new = Inr (True, s')"
    "loaded s'" "loadFailed s' = True # replicate (nat (10 - 8)) False" "width s' = 0" "height s' = 0"
    by blast
  with n have "\<exists>s'. loadSequence T_ofPixels example_env ''img'' ''png'' 8 10 3 example_new = Inr (True, s') \<and>
         loaded s' \<and> loadFailed s' = [True, False, False] \<and> width s' = 0 \<and> height s' = 0"
    by auto
  with r g d show ?thesis by blast
qed

section \<open>The invariant of the class\<close>

lemma same_shape_refl: "same_shape s s"
  by (simp add: same_shape_def)

lemma same_shape_trans: "same_shape s s1 \<Longrightarrow> same_shape s1 s2 \<Longrightarrow> same_shape s s2"
  by (simp add: same_shape_def)

lemma same_shape_invariant: "same_shape s s' \<Longrightarrow> sequence_invariant s \<Longrightarrow> sequence_invariant s'"
  by (auto simp: same_shape_def sequence_invariant_def vectors_aligned_def)

lemma tryLoadImage_shape: "tryLoadImage e i s = Inr s' \<Longrightarrow> same_shape s s'"
  by (auto simp: tryLoadImage_def ofLogError_def Let_def same_shape_def
           split: if_splits option.splits)

lemma tryLoadImage_fault: "tryLoadImage e i s = Inl f \<Longrightarrow> f = IndexOutOfRange"
  by (auto simp: tryLoadImage_def ofLogError_def Let_def split: if_splits option.splits)

lemma loadFrame_shape: "loadFrame e index s = Inr s' \<Longrightarrow> same_shape s s'"
  apply (simp add: loadFrame_def Let_def split: if_splits sum.splits)
     apply (simp_all add: same_shape_def ofLogError_def)
   apply (auto dest!: tryLoadImage_shape simp: same_shape_def)
  done

lemma loadFrame_fault: "loadFrame e index s = Inl f \<Longrightarrow> f = IndexOutOfRange"
  by (auto simp: loadFrame_def Let_def split: if_splits sum.splits dest: tryLoadImage_fault)

lemma loadFrame_returns:
  assumes "vectors_aligned s"
  shows "\<exists>s'. loadFrame e index s = Inr s'"
proof (cases "lastFrameLoaded s = index \<or> index < 0 \<or> int (length (sequence s)) \<le> index")
  case True
  then show ?thesis by (auto simp: loadFrame_def)
next
  case False
  then have i: "nat index < length (sequence s)" by auto
  from tryLoadImage_Inr [OF i assms, of e] obtain s1 where "tryLoadImage e (nat index) s = Inr s1"
    by blast
  with False i assms show ?thesis
    by (auto simp: loadFrame_def Let_def vectors_aligned_def)
qed

lemma preloadAllFrames_loop_shape:
  "preloadAllFrames_loop e cancelSeen i s = Inr s' \<Longrightarrow> same_shape s s'"
proof (induction e cancelSeen i s rule: preloadAllFrames_loop.induct)
  case (1 e cancelSeen i s)
  show ?case
  proof (cases "i < length (sequence s) \<and> \<not> (useThread s \<and> threadLoader s = None) \<and>
                \<not> (useThread s \<and> (cancelLoading (the (threadLoader s)) \<or> cancelSeen i))")
    case False
    then have "preloadAllFrames_loop e cancelSeen i s = Inr s"
      by (subst preloadAllFrames_loop.simps) auto
    with "1.prems" show ?thesis by (simp add: same_shape_refl)
  next
    case True
    then have c: "i < length (sequence s)" "\<not> (useThread s \<and> threadLoader s = None)"
      "\<not> (useThread s \<and> (cancelLoading (the (threadLoader s)) \<or> cancelSeen i))"
      by blast+
    have eq: "preloadAllFrames_loop e cancelSeen i s =
                (case tryLoadImage e i (s\<lparr>curLoadFrame := int i\<rparr>) of
                   Inl f \<Rightarrow> Inl f
                 | Inr s1 \<Rightarrow> preloadAllFrames_loop e cancelSeen (Suc i) s1)"
      by (subst preloadAllFrames_loop.simps) (simp only: c if_True if_False)
    with "1.prems" obtain s1 where t: "tryLoadImage e i (s\<lparr>curLoadFrame := int i\<rparr>) = Inr s1"
      and r: "preloadAllFrames_loop e cancelSeen (Suc i) s1 = Inr s'"
      by (auto split: sum.splits)
    from "1.IH" [OF c t r] tryLoadImage_shape [OF t] show ?thesis
      by (simp add: same_shape_def)
  qed
qed

lemma preloadAllFrames_shape: "preloadAllFrames e cancelSeen s = Inr s' \<Longrightarrow> same_shape s s'"
  by (auto simp: preloadAllFrames_def ofLogError_def same_shape_def
           dest: preloadAllFrames_loop_shape split: if_splits)

lemma setFrame_shape: "setFrame e index s = Inr s' \<Longrightarrow> same_shape s s'"
  by (auto simp: setFrame_def ofLogError_def same_shape_def Let_def
           dest!: loadFrame_shape split: if_splits sum.splits)

lemma completeLoading_invariant:
  "completeLoading e s = Inr s' \<Longrightarrow> sequence_invariant s \<Longrightarrow> sequence_invariant s'"
  by (auto simp: completeLoading_def ofLogError_def same_shape_def sequence_invariant_def
                 vectors_aligned_def vector_at_def
           dest!: loadFrame_shape split: if_splits sum.splits)

lemma loadSequence_loop_aligned:
  "loadSequence_loop T format i endDigit s = Inr (ok, s') \<Longrightarrow> vectors_aligned s
     \<Longrightarrow> vectors_aligned s' \<and> loaded s' = loaded s"
proof (induction T format i endDigit s rule: loadSequence_loop.induct)
  case (1 T format i endDigit s)
  show ?case
  proof (cases "i \<le> endDigit")
    case False
    then have "loadSequence_loop T format i endDigit s = Inr (True, s)"
      by (subst loadSequence_loop.simps) simp
    with "1.prems" show ?thesis by simp
  next
    case True
    let ?s1 = "\<lambda>name. s\<lparr>filenames := filenames s @ [name]\<rparr>"
    let ?s2 = "\<lambda>name. (?s1 name)\<lparr>sequence := sequence (?s1 name) @ [ofPixels_new]\<rparr>"
    have eq: "loadSequence_loop T format i endDigit s =
                (case sprintf format i of
                   Inl f \<Rightarrow> Inl f
                 | Inr name \<Rightarrow>
                     (case int_result (i + 1) of
                        Inl f \<Rightarrow> Inl f
                      | Inr i1 \<Rightarrow>
                          loadSequence_loop T format i1 endDigit
                            ((?s2 name)\<lparr>loadFailed := loadFailed (?s2 name) @ [False]\<rparr>)))"
      by (subst loadSequence_loop.simps) (simp add: True push_back_pixels_T split: sum.splits)
    with "1.prems"(1) obtain name i1 where n: "sprintf format i = Inr name"
      and ir: "int_result (i + 1) = Inr i1"
      and r: "loadSequence_loop T format i1 endDigit
                ((?s2 name)\<lparr>loadFailed := loadFailed (?s2 name) @ [False]\<rparr>) = Inr (ok, s')"
      by (auto split: sum.splits)
    have a: "vectors_aligned ((?s2 name)\<lparr>loadFailed := loadFailed (?s2 name) @ [False]\<rparr>)"
      using "1.prems"(2) by (simp add: vectors_aligned_def)
    from "1.IH" [OF True n push_back_pixels_T ir r a] show ?thesis by simp
  qed
qed

lemma loadSequence_invariant:
  "loadSequence T e prefix filetype a b n s = Inr (r, s') \<Longrightarrow> sequence_invariant s'"
proof -
  assume run: "loadSequence T e prefix filetype a b n s = Inr (r, s')"
  have u: "vectors_aligned (unloadSequence s)" "\<not> loaded (unloadSequence s)"
    by (simp_all add: unloadSequence_def vectors_aligned_def)
  from run show ?thesis
    apply (simp add: loadSequence_def Let_def split: sum.splits if_splits prod.splits)
      apply (auto simp: sequence_invariant_def ofLogError_def u vector_at_def
                  dest!: loadSequence_loop_aligned [OF _ u(1)] loadFrame_shape
                  split: if_splits)
      apply (auto simp: same_shape_def vectors_aligned_def unloadSequence_def)
    done
qed


lemma preloadAllFilenames_invariant:
  "sequence_invariant s \<Longrightarrow> sequence_invariant (snd (preloadAllFilenames T e s))"
  by (auto simp: preloadAllFilenames_def preloadAllFilenames_loop_fails Let_def ofLogError_def
                 sequence_invariant_def vectors_aligned_def)

lemma unloadSequence_invariant: "sequence_invariant (unloadSequence s)"
  by (simp add: unloadSequence_def sequence_invariant_def vectors_aligned_def)

lemma loadSequence_folder_invariant:
  "loadSequence_folder T e folder s = Inr (r, s') \<Longrightarrow> sequence_invariant s'"
proof -
  assume run: "loadSequence_folder T e folder s = Inr (r, s')"
  let ?u = "(unloadSequence s)\<lparr>folderToLoad := folder\<rparr>"
  have u: "sequence_invariant ?u"
    by (simp add: unloadSequence_def sequence_invariant_def vectors_aligned_def)
  show ?thesis
  proof (cases "useThread s")
    case True
    with run show ?thesis
      by (auto simp: loadSequence_folder_def Let_def unloadSequence_def sequence_invariant_def
                     vectors_aligned_def)
  next
    case False
    with run preloadAllFilenames_never_succeeds [of T e ?u]
    have "s' = snd (preloadAllFilenames T e ?u)"
      by (auto simp: loadSequence_folder_def Let_def unloadSequence_def split: prod.splits)
    with preloadAllFilenames_invariant [OF u] show ?thesis by simp
  qed
qed

lemma update_loader_invariant: "sequence_invariant s \<Longrightarrow> sequence_invariant (update_loader f s)"
  by (simp add: update_loader_def sequence_invariant_def vectors_aligned_def)

lemma threadedFunction_invariant:
  "threadedFunction T e cancelledEarly cancelSeen s = Inr s' \<Longrightarrow> sequence_invariant s
     \<Longrightarrow> sequence_invariant s'"
  using preloadAllFilenames_never_succeeds [of T e s] preloadAllFilenames_invariant [of s T e]
  by (auto simp: threadedFunction_def update_loader_invariant split: prod.splits)

lemma updateThreadedLoad_invariant:
  "updateThreadedLoad e s = Inr s' \<Longrightarrow> sequence_invariant s \<Longrightarrow> sequence_invariant s'"
  by (auto simp: updateThreadedLoad_def split: option.splits if_splits
           dest: completeLoading_invariant)

lemma reachable_invariant: "reachable T s \<Longrightarrow> sequence_invariant s"
proof (induction rule: reachable.induct)
  case (r_new w h mn mg tex)
  show ?case by (simp add: ofxImageSequence_new_def sequence_invariant_def vectors_aligned_def)
next
  case (r_setExtension s ext)
  then show ?case by (simp add: setExtension_def sequence_invariant_def vectors_aligned_def)
next
  case (r_setMaxFrames s n)
  then show ?case
    by (simp add: setMaxFrames_def ofLogError_def Let_def sequence_invariant_def vectors_aligned_def)
next
  case (r_enableThreadedLoad s b)
  then show ?case
    by (simp add: enableThreadedLoad_def ofLogError_def Let_def sequence_invariant_def
                  vectors_aligned_def)
next
  case (r_loadSequence s e prefix filetype a b n r s')
  then show ?case by (simp add: loadSequence_invariant)
next
  case (r_loadSequence_folder s e folder r s')
  then show ?case by (simp add: loadSequence_folder_invariant)
next
  case (r_cancelLoad s)
  then show ?case by (simp add: cancelLoad_def sequence_invariant_def vectors_aligned_def)
next
  case (r_preloadAllFrames s e cancelSeen s')
  then show ?case by (blast intro: same_shape_invariant preloadAllFrames_shape)
next
  case (r_unloadSequence s)
  show ?case by (rule unloadSequence_invariant)
next
  case (r_setFrameRate s rate)
  then show ?case by (simp add: setFrameRate_def sequence_invariant_def vectors_aligned_def)
next
  case (r_setFrame s e index s')
  then show ?case by (blast intro: same_shape_invariant setFrame_shape)
next
  case (r_getFilePath s index)
  then show ?case
    by (simp add: getFilePath_def ofLogError_def sequence_invariant_def vectors_aligned_def)
next
  case (r_loadFrame s e index s')
  then show ?case by (blast intro: same_shape_invariant loadFrame_shape)
next
  case (r_setMinMagFilter s mn mg)
  then show ?case by (simp add: setMinMagFilter_def sequence_invariant_def vectors_aligned_def)
next
  case (r_completeLoading s e s')
  then show ?case by (blast intro: completeLoading_invariant)
next
  case (r_preloadAllFilenames s e)
  then show ?case by (simp add: preloadAllFilenames_invariant)
next
  case (r_threadedFunction s e cancelledEarly cancelSeen s')
  then show ?case by (blast intro: threadedFunction_invariant)
next
  case (r_updateThreadedLoad s e s')
  then show ?case by (blast intro: updateThreadedLoad_invariant)
next
  case (r_loader_flags s f)
  then show ?case by (simp add: update_loader_invariant)
qed

lemma setFrame_returns:
  assumes "sequence_invariant s"
  shows "\<exists>s'. setFrame e index s = Inr s'"
proof -
  from assms have a: "vectors_aligned s" and n: "loaded s \<longrightarrow> getTotalFrames s \<noteq> 0"
    by (simp_all add: sequence_invariant_def getTotalFrames_def)
  from loadFrame_returns [OF a] obtain s1
    where "loadFrame e (index mod getTotalFrames s) s = Inr s1" by blast
  with n show ?thesis by (simp add: setFrame_def Let_def)
qed

text \<open>
  C8. Every sequence a program can hold satisfies: if \<^verbatim>\<open>loaded\<close> is true then
  \<^verbatim>\<open>sequence\<close> is not empty. Hence \<^verbatim>\<open>setFrame\<close>, whatever the decoder and
  the index, never divides by zero in \<^verbatim>\<open>index %= getTotalFrames()\<close>; it returns.
\<close>

theorem loaded_sequence_is_nonempty:
  "reachable T s \<Longrightarrow>
     (loaded s \<longrightarrow> sequence s \<noteq> []) \<and>
     (\<forall>e index. setFrame e index s \<noteq> Inl DivideByZero \<and> (\<exists>s'. setFrame e index s = Inr s'))"
proof -
  assume "reachable T s"
  then have i: "sequence_invariant s" by (rule reachable_invariant)
  then have 1: "loaded s \<longrightarrow> sequence s \<noteq> []" by (simp add: sequence_invariant_def)
  have 2: "setFrame e index s \<noteq> Inl DivideByZero \<and> (\<exists>s'. setFrame e index s = Inr s')" for e index
    using setFrame_returns [OF i, of e index] by auto
  from 1 2 show ?thesis by blast
qed
theorem loaded_sequence_is_nonempty_witness:
  "reachable T_ofPixels example_loaded \<and> loaded example_loaded \<and> sequence example_loaded \<noteq> [] \<and>
   setFrame example_env 7 example_loaded \<noteq> Inl DivideByZero"
proof -
  have "reachable T_ofPixels example_new"
    unfolding example_new_def by (rule r_new)
  then have r: "reachable T_ofPixels example_loaded"
    using example_loaded_run by (rule r_loadSequence)
  have l: "loaded example_loaded" by code_simp
  from loaded_sequence_is_nonempty [OF r] l r show ?thesis by blast
qed

section \<open>Properties of the cancellation\<close>

text \<open>
  \<^verbatim>\<open>cancelLoad\<close> on a threaded load that is not complete releases the
  loader and changes nothing else, so \<^verbatim>\<open>isLoading\<close> is false afterwards and
  \<^verbatim>\<open>percentLoaded\<close> returns 0.
\<close>

lemma cancelLoad_releases_loader:
  assumes "useThread s" "threadLoader s \<noteq> None" "\<not> loaded s"
  shows "\<not> loaded (cancelLoad s) \<and> percentLoaded (cancelLoad s) = 0 \<and>
         \<not> isLoading (cancelLoad s) \<and>
         cancelLoad s = s\<lparr>threadLoader := None\<rparr>"
  using assms by (simp add: cancelLoad_def percentLoaded_def isLoaded_def isLoading_def)








end
